theory Spec2Isabelle
  imports Complex_Main
begin

section \<open>Shared data: floats, errors, panics\<close>

text \<open>
  The merge code never computes with sample values: it only asks \<open>math.IsNaN\<close> and copies.
  A float is therefore either not-a-number or a number (the payload stands for any other
  IEEE value; width and infinities play no part).
\<close>

datatype float = NaN | Val real

fun IsNaN :: "float \<Rightarrow> bool" where
  "IsNaN NaN = True"
| "IsNaN (Val x) = False"

text \<open>Go \<open>error\<close> values: the sentinel used by the fetch merge, and any other error.\<close>

datatype error = ErrResponseStartTimeMismatch | ErrOther string

text \<open>Run-time panics of the Go code that the model keeps as results.\<close>

datatype panic = NilPointerDereference | NilMapAssignment | IndexOutOfRange

section \<open>The error aggregate\<close>

text \<open>
  Modelled from the spec: the package \<open>zipper/errors\<close> (type \<open>Errors\<close>, its \<open>Merge\<close> and
  \<open>FromErr\<close>) is not among the sources. The spec: an ordered sequence of recorded errors plus
  a boolean \<open>HaveFatalErrors\<close>; \<open>Merge(other)\<close> appends other's errors and ORs the fatal flags;
  \<open>FromErr(error)\<close> is a one-element aggregate, or an empty aggregate if the error is nil.
  A nil operand of \<open>Merge\<close> is taken to contribute nothing. The start-time mismatch is
  classified fatal (spec, section 7).
\<close>

record Errors =
  HaveFatalErrors :: bool
  Errs :: "error list"

definition new_Errors :: Errors where
  "new_Errors = \<lparr>HaveFatalErrors = False, Errs = []\<rparr>"

definition Errors_Merge :: "Errors \<Rightarrow> Errors option \<Rightarrow> Errors" where
  "Errors_Merge e other =
     (case other of
        None \<Rightarrow> e
      | Some e2 \<Rightarrow> \<lparr>HaveFatalErrors = (HaveFatalErrors e \<or> HaveFatalErrors e2),
                   Errs = Errs e @ Errs e2\<rparr>)"

definition FromErr :: "error option \<Rightarrow> Errors" where
  "FromErr err =
     (case err of
        None \<Rightarrow> new_Errors
      | Some x \<Rightarrow> \<lparr>HaveFatalErrors = True, Errs = [x]\<rparr>)"

text \<open>
  The common prologue of every \<open>Merge\<close>:
  \<^verbatim>\<open>if first.Err == nil { first.Err = new(errors.Errors) }; first.Err.Merge(second.Err)\<close>
\<close>

definition mergeErr :: "Errors option \<Rightarrow> Errors option \<Rightarrow> Errors" where
  "mergeErr firstErr secondErr =
     Errors_Merge (case firstErr of None \<Rightarrow> new_Errors | Some e \<Rightarrow> e) secondErr"

text \<open>
  \<^verbatim>\<open>if second.Stats != nil { first.Stats.Merge(second.Stats) }\<close>
  \<open>Stats.Merge\<close> is outside the sources: it is the parameter \<open>smerge\<close>, acting on the two
  pointees. A nil receiver with a non-nil operand is a nil dereference.
\<close>

definition mergeStats :: "('s \<Rightarrow> 's \<Rightarrow> 's) \<Rightarrow> 's option \<Rightarrow> 's option \<Rightarrow> panic + 's option" where
  "mergeStats smerge firstStats secondStats =
     (case secondStats of
        None \<Rightarrow> Inr firstStats
      | Some s2 \<Rightarrow>
          (case firstStats of
             None \<Rightarrow> Inl NilPointerDereference
           | Some s1 \<Rightarrow> Inr (Some (smerge s1 s2))))"

section \<open>Tag responses\<close>

text \<open>\<open>Response []string\<close> may be nil (\<open>None\<close>); \<open>Err *errors.Errors\<close> may be nil.\<close>

record ServerTagResponse =
  tag_Server :: string
  tag_Response :: "string list option"
  tag_Err :: "Errors option"

definition NewServerTagResponse :: ServerTagResponse where
  "NewServerTagResponse = \<lparr>tag_Server = [], tag_Response = Some [], tag_Err = Some new_Errors\<rparr>"

text \<open>Go's \<open>append\<close> on a possibly nil slice.\<close>

definition append_slice :: "'a list option \<Rightarrow> 'a \<Rightarrow> 'a list option" where
  "append_slice s v = (case s of None \<Rightarrow> Some [v] | Some xs \<Rightarrow> Some (xs @ [v]))"

text \<open>Ranging over a possibly nil slice visits the elements of the slice, none when nil.\<close>

definition elems :: "'a list option \<Rightarrow> 'a list" where
  "elems s = (case s of None \<Rightarrow> [] | Some xs \<Rightarrow> xs)"

text \<open>
  Lines 36-39: the membership set \<open>firstMap\<close>, built once from \<open>first.Response\<close>.
  Lines 41-45: the loop over \<open>second.Response\<close>; \<open>firstMap\<close> is not updated in it.
\<close>

fun tagLoop :: "string set \<Rightarrow> string list option \<Rightarrow> string list \<Rightarrow> string list option" where
  "tagLoop firstMap resp [] = resp"
| "tagLoop firstMap resp (v # vs) =
     (if v \<notin> firstMap then tagLoop firstMap (append_slice resp v) vs
      else tagLoop firstMap resp vs)"

text \<open>\<open>ServerTagResponse.Merge\<close>: the updated receiver and the returned pointer.\<close>

definition tag_Merge :: "ServerTagResponse \<Rightarrow> ServerTagResponse \<Rightarrow> ServerTagResponse \<times> Errors option" where
  "tag_Merge first second =
     (let first1 = first\<lparr>tag_Err := Some (mergeErr (tag_Err first) (tag_Err second))\<rparr>
      in case tag_Response second of
           None \<Rightarrow> (first1, tag_Err first1)
         | Some vs \<Rightarrow>
             (first1\<lparr>tag_Response :=
                 tagLoop (set (elems (tag_Response first1))) (tag_Response first1) vs\<rparr>,
              None))"

section \<open>Info responses\<close>

text \<open>
  \<open>protov3.ZipperInfoResponse\<close> holds the map \<open>Info\<close>, which may be nil; the per-metric
  record \<open>MultiMetricsInfoResponse\<close> is opaque to the merge (type \<open>'i\<close>).
\<close>

record 'i ZipperInfoResponse =
  Info :: "(string \<rightharpoonup> 'i) option"

record ('i, 's) ServerInfoResponse =
  info_Server :: string
  info_Response :: "'i ZipperInfoResponse option"
  info_Stats :: "'s option"
  info_Err :: "Errors option"

text \<open>The entries a \<open>range\<close> over a possibly nil map visits.\<close>

definition entries :: "('k \<rightharpoonup> 'v) option \<Rightarrow> ('k \<rightharpoonup> 'v)" where
  "entries m = (case m of None \<Rightarrow> Map.empty | Some f \<Rightarrow> f)"

text \<open>
  Lines 79-81. Each key of \<open>second\<close> is assigned once, so the iteration order of the Go map
  does not show in the result. With no entry to visit the body never runs; otherwise the
  first assignment dereferences \<open>first.Response\<close> and writes into its map.
\<close>

definition infoLoop ::
  "'i ZipperInfoResponse option \<Rightarrow> (string \<rightharpoonup> 'i) \<Rightarrow> panic + 'i ZipperInfoResponse option" where
  "infoLoop resp m2 =
     (if m2 = Map.empty then Inr resp
      else case resp of
             None \<Rightarrow> Inl NilPointerDereference
           | Some r \<Rightarrow>
               (case Info r of
                  None \<Rightarrow> Inl NilMapAssignment
                | Some m1 \<Rightarrow> Inr (Some (r\<lparr>Info := Some (m1 ++ m2)\<rparr>))))"

definition info_Merge ::
  "('s \<Rightarrow> 's \<Rightarrow> 's) \<Rightarrow> ('i, 's) ServerInfoResponse \<Rightarrow> ('i, 's) ServerInfoResponse
     \<Rightarrow> panic + (('i, 's) ServerInfoResponse \<times> Errors option)" where
  "info_Merge smerge first second =
     (case mergeStats smerge (info_Stats first) (info_Stats second) of
        Inl p \<Rightarrow> Inl p
      | Inr st \<Rightarrow>
          (let first1 = first\<lparr>info_Stats := st,
                              info_Err := Some (mergeErr (info_Err first) (info_Err second))\<rparr>
           in case info_Response second of
                None \<Rightarrow> Inr (first1, info_Err first1)
              | Some r2 \<Rightarrow>
                  (case infoLoop (info_Response first1) (entries (Info r2)) of
                     Inl p \<Rightarrow> Inl p
                   | Inr resp \<Rightarrow> Inr (first1\<lparr>info_Response := resp\<rparr>, None))))"

text \<open>The info map an aggregate shows to a reader (nothing when the body or map is nil).\<close>

definition info_of :: "('i, 's) ServerInfoResponse \<Rightarrow> (string \<rightharpoonup> 'i)" where
  "info_of r = (case info_Response r of None \<Rightarrow> Map.empty | Some z \<Rightarrow> entries (Info z))"

section \<open>Find responses\<close>

text \<open>
  \<open>protov3.GlobMatch\<close> and \<open>protov3.GlobResponse\<close> (spec, section 6: a match has a path
  and an is-leaf flag; the merge reads the path only). \<open>protov3.MultiGlobResponse\<close> is the
  slice \<open>Metrics\<close>; the pointer to it may be nil.
\<close>

record GlobMatch =
  Path :: string
  IsLeaf :: bool

record GlobResponse =
  glob_Name :: string
  Matches :: "GlobMatch list"

record 's ServerFindResponse =
  find_Server :: string
  find_Response :: "GlobResponse list option"
  find_Stats :: "'s option"
  find_Err :: "Errors option"

text \<open>The key of \<open>seenMatches\<close>: \<^verbatim>\<open>m.Name+"."+mm.Path\<close>.\<close>

definition matchKey :: "string \<Rightarrow> string \<Rightarrow> string" where
  "matchKey n p = n @ ''.'' @ p"

text \<open>
  Lines 115-122: \<open>seenMetrics\<close> maps a name to the index of its last entry in \<open>first\<close>,
  \<open>seenMatches\<close> collects the key of every match of \<open>first\<close>.
\<close>

fun indexGlob ::
  "nat \<Rightarrow> GlobResponse list \<Rightarrow> (string \<rightharpoonup> nat) \<times> string set \<Rightarrow> (string \<rightharpoonup> nat) \<times> string set" where
  "indexGlob i [] seen = seen"
| "indexGlob i (m # ms) (seenMetrics, seenMatches) =
     indexGlob (Suc i) ms
       (seenMetrics(glob_Name m \<mapsto> i),
        seenMatches \<union> (\<lambda>mm. matchKey (glob_Name m) (Path mm)) ` set (Matches m))"

text \<open>Lines 132-138: the inner loop over the matches of one entry of \<open>second\<close>.\<close>

fun appendMatches ::
  "nat \<Rightarrow> string set \<Rightarrow> GlobResponse list \<Rightarrow> GlobMatch list \<Rightarrow> string set \<times> GlobResponse list" where
  "appendMatches i seenMatches fs [] = (seenMatches, fs)"
| "appendMatches i seenMatches fs (mm # mms) =
     (let key = matchKey (glob_Name (fs ! i)) (Path mm)
      in if key \<notin> seenMatches
         then appendMatches i (insert key seenMatches)
                (fs[i := (fs ! i)\<lparr>Matches := Matches (fs ! i) @ [mm]\<rparr>]) mms
         else appendMatches i seenMatches fs mms)"

text \<open>
  Lines 126-139: the loop over \<open>second.Response.Metrics\<close>. \<open>seenMetrics\<close> is not updated;
  indexing \<open>first.Response.Metrics[i]\<close> beyond the slice would panic.
\<close>

fun globLoop ::
  "(string \<rightharpoonup> nat) \<Rightarrow> string set \<Rightarrow> GlobResponse list \<Rightarrow> GlobResponse list
     \<Rightarrow> panic + GlobResponse list" where
  "globLoop seenMetrics seenMatches fs [] = Inr fs"
| "globLoop seenMetrics seenMatches fs (m # ms) =
     (case seenMetrics (glob_Name m) of
        None \<Rightarrow> globLoop seenMetrics seenMatches (fs @ [m]) ms
      | Some i \<Rightarrow>
          (if i < length fs
           then (case appendMatches i seenMatches fs (Matches m) of
                   (seenMatches', fs') \<Rightarrow> globLoop seenMetrics seenMatches' fs' ms)
           else Inl IndexOutOfRange))"

definition find_Merge ::
  "('s \<Rightarrow> 's \<Rightarrow> 's) \<Rightarrow> 's ServerFindResponse \<Rightarrow> 's ServerFindResponse
     \<Rightarrow> panic + ('s ServerFindResponse \<times> Errors option)" where
  "find_Merge smerge first second =
     (case mergeStats smerge (find_Stats first) (find_Stats second) of
        Inl p \<Rightarrow> Inl p
      | Inr st \<Rightarrow>
          (let first1 = first\<lparr>find_Stats := st,
                              find_Err := Some (mergeErr (find_Err first) (find_Err second))\<rparr>
           in case find_Response second of
                None \<Rightarrow> Inr (first1, find_Err first1)
              | Some ss \<Rightarrow>
                  (case find_Response first1 of
                     None \<Rightarrow> Inl NilPointerDereference
                   | Some fs \<Rightarrow>
                       (case indexGlob 0 fs (Map.empty, {}) of
                          (seenMetrics, seenMatches) \<Rightarrow>
                            (case globLoop seenMetrics seenMatches fs ss of
                               Inl p \<Rightarrow> Inl p
                             | Inr fs' \<Rightarrow> Inr (first1\<lparr>find_Response := Some fs'\<rparr>, None))))))"

subsection \<open>The find merge in the words of the spec\<close>

text \<open>
  A two-level union. \<open>matchKeys\<close> are the keys of all matches of \<open>first\<close>; \<open>lastAt fs n j\<close>
  says that \<open>j\<close> is the position of the last entry of \<open>fs\<close> named \<open>n\<close>; \<open>candidates\<close> are the
  matches that \<open>second\<close> offers to existing entries, each with its target position, in
  \<open>second\<close>'s order; \<open>unseen\<close> keeps the elements of a list whose key is neither in the given
  set nor carried by an earlier element.
\<close>

definition matchKeys :: "GlobResponse list \<Rightarrow> string set" where
  "matchKeys fs = (\<Union>m \<in> set fs. (\<lambda>mm. matchKey (glob_Name m) (Path mm)) ` set (Matches m))"

definition lastAt :: "GlobResponse list \<Rightarrow> string \<Rightarrow> nat \<Rightarrow> bool" where
  "lastAt fs n j \<longleftrightarrow> j < length fs \<and> glob_Name (fs ! j) = n \<and>
                    (\<forall>l. j < l \<and> l < length fs \<longrightarrow> glob_Name (fs ! l) \<noteq> n)"

definition unseen :: "'k set \<Rightarrow> ('a \<Rightarrow> 'k) \<Rightarrow> 'a list \<Rightarrow> 'a list" where
  "unseen seen key xs =
     map (nth xs) (filter (\<lambda>j. key (xs ! j) \<notin> seen \<union> key ` set (take j xs)) [0..<length xs])"

definition candidates :: "(string \<rightharpoonup> nat) \<Rightarrow> GlobResponse list \<Rightarrow> (nat \<times> GlobMatch) list" where
  "candidates pos ss =
     concat (map (\<lambda>m. case pos (glob_Name m) of
                          None \<Rightarrow> []
                        | Some i \<Rightarrow> map (Pair i) (Matches m)) ss)"

text \<open>
  The merged entries: every entry of \<open>first\<close> with the kept candidates for its position
  appended, then the entries of \<open>second\<close> whose name has no position in \<open>first\<close>.
\<close>

definition find_union ::
  "(string \<rightharpoonup> nat) \<Rightarrow> GlobResponse list \<Rightarrow> GlobResponse list \<Rightarrow> GlobResponse list" where
  "find_union pos fs ss =
     (let kept = unseen (matchKeys fs) (\<lambda>(i, mm). matchKey (glob_Name (fs ! i)) (Path mm))
                   (candidates pos ss)
      in map (\<lambda>i. (fs ! i)\<lparr>Matches := Matches (fs ! i) @ map snd (filter (\<lambda>(j, mm). j = i) kept)\<rparr>)
           [0..<length fs]
         @ filter (\<lambda>m. pos (glob_Name m) = None) ss)"

text \<open>
  The kept candidates written into the entries one after the other, as the loop does.
\<close>

fun applyKept :: "GlobResponse list \<Rightarrow> (nat \<times> GlobMatch) list \<Rightarrow> GlobResponse list" where
  "applyKept fs [] = fs"
| "applyKept fs ((i, mm) # ks) =
     applyKept (fs[i := (fs ! i)\<lparr>Matches := Matches (fs ! i) @ [mm]\<rparr>]) ks"

section \<open>Fetch responses and the per-series reconciler\<close>

text \<open>
  \<open>protov3.FetchResponse\<close>, with the fields the merge reads or writes. Times are \<open>int64\<close>
  and only compared, so plain integers carry them.
\<close>

record FetchResponse =
  Name :: string
  ConsolidationFunc :: string
  StartTime :: int
  StopTime :: int
  StepTime :: int
  XFilesFactor :: float
  Values :: "float list"
  AppliedFunctions :: "string list"
  RequestStartTime :: int
  RequestStopTime :: int

record 's ServerFetchResponse =
  fetch_Server :: string
  fetch_Response :: "FetchResponse list option"
  fetch_Stats :: "'s option"
  fetch_Err :: "Errors option"

text \<open>Lines 164-173. Both records are written; the pair is their state afterwards.\<close>

definition swapFetchResponses :: "FetchResponse \<Rightarrow> FetchResponse \<Rightarrow> FetchResponse \<times> FetchResponse" where
  "swapFetchResponses m1 m2 =
     (m1\<lparr>Name := Name m2, StartTime := StartTime m2, StepTime := StepTime m2,
         ConsolidationFunc := ConsolidationFunc m2, XFilesFactor := XFilesFactor m2,
         Values := Values m2, AppliedFunctions := AppliedFunctions m2,
         StopTime := StopTime m2\<rparr>,
      m2\<lparr>Name := Name m1, StartTime := StartTime m1, StepTime := StepTime m1,
         ConsolidationFunc := ConsolidationFunc m1, XFilesFactor := XFilesFactor m1,
         Values := Values m1, AppliedFunctions := AppliedFunctions m1,
         StopTime := StopTime m1\<rparr>)"

text \<open>
  Lines 184-188: \<^verbatim>\<open>for i := 0; i < len(m2.Values); i++\<close>, reading and writing
  \<open>m1.Values[i]\<close>; an index beyond \<open>m1.Values\<close> panics. The two value slices are taken
  not to share storage.
\<close>

function fillLoop :: "nat \<Rightarrow> float list \<Rightarrow> float list \<Rightarrow> panic + float list" where
  "fillLoop i v1 v2 =
     (if i < length v2
      then (if i < length v1
            then fillLoop (Suc i) (if IsNaN (v1 ! i) then v1[i := v2 ! i] else v1) v2
            else Inl IndexOutOfRange)
      else Inr v1)"
  by pat_completeness auto
termination
  by (relation "measure (\<lambda>(i, v1, v2). length v2 - i)") auto

declare fillLoop.simps [simp del]

text \<open>
  Lines 175-191. The result is the returned \<open>error\<close> (nil is \<open>None\<close>) and the two records
  as the call leaves them. The correlation id only reaches the log.
\<close>

definition mergeFetchResponsesWithEqualStepTimes ::
  "FetchResponse \<Rightarrow> FetchResponse \<Rightarrow> string
     \<Rightarrow> panic + (error option \<times> FetchResponse \<times> FetchResponse)" where
  "mergeFetchResponsesWithEqualStepTimes m1 m2 uuid =
     (if StartTime m1 \<noteq> StartTime m2 then Inr (Some ErrResponseStartTimeMismatch, m1, m2)
      else case (if length (Values m1) < length (Values m2)
                 then swapFetchResponses m1 m2 else (m1, m2)) of
             (a, b) \<Rightarrow>
               (case fillLoop 0 (Values a) (Values b) of
                  Inl p \<Rightarrow> Inl p
                | Inr vs \<Rightarrow> Inr (None, a\<lparr>Values := vs\<rparr>, b)))"

text \<open>Lines 193-211; the warning written to the log is not part of the state.\<close>

definition mergeFetchResponsesWithUnequalStepTimes ::
  "FetchResponse \<Rightarrow> FetchResponse \<Rightarrow> string
     \<Rightarrow> panic + (error option \<times> FetchResponse \<times> FetchResponse)" where
  "mergeFetchResponsesWithUnequalStepTimes m1 m2 uuid =
     (case (if StepTime m1 > StepTime m2 then swapFetchResponses m1 m2 else (m1, m2)) of
        (a, b) \<Rightarrow> Inr (None, a, b))"

text \<open>Lines 213-239: the returned aggregate and the two records afterwards.\<close>

definition MergeFetchResponses ::
  "FetchResponse \<Rightarrow> FetchResponse \<Rightarrow> string \<Rightarrow> panic + (Errors \<times> FetchResponse \<times> FetchResponse)" where
  "MergeFetchResponses m1 m2 uuid =
     (case (if RequestStartTime m1 \<noteq> RequestStartTime m2
            then Inr (Some ErrResponseStartTimeMismatch, m1, m2)
            else if StepTime m1 = StepTime m2
            then mergeFetchResponsesWithEqualStepTimes m1 m2 uuid
            else mergeFetchResponsesWithUnequalStepTimes m1 m2 uuid) of
        Inl p \<Rightarrow> Inl p
      | Inr (err, a, b) \<Rightarrow> Inr (FromErr err, a, b))"

text \<open>Lines 281-293.\<close>

type_synonym fetchResponseCoordinates = "string \<times> int \<times> int"

definition coordinates :: "FetchResponse \<Rightarrow> fetchResponseCoordinates" where
  "coordinates r = (Name r, RequestStartTime r, RequestStopTime r)"

text \<open>Lines 263-266: the index of \<open>first\<close>'s records; a later record with the same key wins.\<close>

fun indexMetrics ::
  "nat \<Rightarrow> FetchResponse list \<Rightarrow> (fetchResponseCoordinates \<rightharpoonup> nat) \<Rightarrow> (fetchResponseCoordinates \<rightharpoonup> nat)" where
  "indexMetrics i [] metrics = metrics"
| "indexMetrics i (r # rs) metrics = indexMetrics (Suc i) rs (metrics(coordinates r \<mapsto> i))"

text \<open>
  Lines 268-278: the loop over \<open>second.Response.Metrics\<close>, returning the series of
  \<open>first\<close> and of \<open>second\<close> afterwards (the reconciler writes both records of a pair).
  The aggregate returned by \<open>MergeFetchResponses\<close> is tested against nil and dropped:
  either way the loop goes on to the next record.
\<close>

fun fetchLoop ::
  "string \<Rightarrow> (fetchResponseCoordinates \<rightharpoonup> nat) \<Rightarrow> FetchResponse list \<Rightarrow> FetchResponse list
     \<Rightarrow> panic + (FetchResponse list \<times> FetchResponse list)" where
  "fetchLoop uuid metrics fs [] = Inr (fs, [])"
| "fetchLoop uuid metrics fs (s # ss) =
     (case metrics (coordinates s) of
        Some j \<Rightarrow>
          (if j < length fs
           then (case MergeFetchResponses (fs ! j) s uuid of
                   Inl p \<Rightarrow> Inl p
                 | Inr (err, a, b) \<Rightarrow>
                     (case fetchLoop uuid metrics (fs[j := a]) ss of
                        Inl p \<Rightarrow> Inl p
                      | Inr (fs', ss') \<Rightarrow> Inr (fs', b # ss')))
           else Inl IndexOutOfRange)
      | None \<Rightarrow>
          (case fetchLoop uuid metrics (fs @ [s]) ss of
             Inl p \<Rightarrow> Inl p
           | Inr (fs', ss') \<Rightarrow> Inr (fs', s # ss')))"

text \<open>Lines 241-279: \<open>ServerFetchResponse.Merge\<close>; both aggregates afterwards.\<close>

definition fetch_Merge ::
  "('s \<Rightarrow> 's \<Rightarrow> 's) \<Rightarrow> 's ServerFetchResponse \<Rightarrow> 's ServerFetchResponse \<Rightarrow> string
     \<Rightarrow> panic + ('s ServerFetchResponse \<times> 's ServerFetchResponse)" where
  "fetch_Merge smerge first second uuid =
     (let first0 = (if fetch_Server first = [] \<and> fetch_Server second \<noteq> []
                    then first\<lparr>fetch_Server := fetch_Server second\<rparr> else first)
      in case mergeStats smerge (fetch_Stats first0) (fetch_Stats second) of
           Inl p \<Rightarrow> Inl p
         | Inr st \<Rightarrow>
             (let first1 = first0\<lparr>fetch_Stats := st,
                                  fetch_Err := Some (mergeErr (fetch_Err first0) (fetch_Err second))\<rparr>
              in if HaveFatalErrors (mergeErr (fetch_Err first0) (fetch_Err second))
                 then Inr (first1, second)
                 else case fetch_Response second of
                        None \<Rightarrow> Inr (first1, second)
                      | Some ss \<Rightarrow>
                          (case fetch_Response first1 of
                             None \<Rightarrow> Inl NilPointerDereference
                           | Some fs \<Rightarrow>
                               (case fetchLoop uuid (indexMetrics 0 fs Map.empty) fs ss of
                                  Inl p \<Rightarrow> Inl p
                                | Inr (fs', ss') \<Rightarrow>
                                    Inr (first1\<lparr>fetch_Response := Some fs'\<rparr>,
                                         second\<lparr>fetch_Response := Some ss'\<rparr>)))))"

section \<open>Example inputs\<close>

text \<open>Two replicas of one series with equal start and step (spec, section 8).\<close>

definition ex_a :: FetchResponse where
  "ex_a = \<lparr>Name = ''cpu.load'', ConsolidationFunc = ''avg'', StartTime = 0, StopTime = 180,
           StepTime = 60, XFilesFactor = Val 0, Values = [Val 1, NaN, Val 3],
           AppliedFunctions = [], RequestStartTime = 0, RequestStopTime = 180\<rparr>"

definition ex_b :: FetchResponse where
  "ex_b = \<lparr>Name = ''cpu.load'', ConsolidationFunc = ''avg'', StartTime = 0, StopTime = 180,
           StepTime = 60, XFilesFactor = Val 0, Values = [NaN, Val 2, NaN],
           AppliedFunctions = [], RequestStartTime = 0, RequestStopTime = 180\<rparr>"

definition ex_coarse :: FetchResponse where
  "ex_coarse = \<lparr>Name = ''cpu.load'', ConsolidationFunc = ''avg'', StartTime = 0, StopTime = 120,
           StepTime = 60, XFilesFactor = Val 0, Values = [Val 1, Val 2],
           AppliedFunctions = [], RequestStartTime = 0, RequestStopTime = 100\<rparr>"

definition ex_fine :: FetchResponse where
  "ex_fine = \<lparr>Name = ''cpu.load'', ConsolidationFunc = ''sum'', StartTime = 0, StopTime = 30,
           StepTime = 10, XFilesFactor = Val 1, Values = [Val 5, NaN, Val 7],
           AppliedFunctions = [''scale''], RequestStartTime = 0, RequestStopTime = 200\<rparr>"

definition ex_short :: FetchResponse where
  "ex_short = \<lparr>Name = ''cpu.load'', ConsolidationFunc = ''avg'', StartTime = 0, StopTime = 60,
           StepTime = 60, XFilesFactor = Val 0, Values = [Val 1],
           AppliedFunctions = [], RequestStartTime = 0, RequestStopTime = 100\<rparr>"

definition ex_long :: FetchResponse where
  "ex_long = \<lparr>Name = ''cpu.load'', ConsolidationFunc = ''sum'', StartTime = 0, StopTime = 120,
           StepTime = 60, XFilesFactor = Val 1, Values = [NaN, Val 2],
           AppliedFunctions = [''scale''], RequestStartTime = 0, RequestStopTime = 200\<rparr>"

text \<open>Aggregates of each kind; statistics are a single counter merged by addition.\<close>

definition ex_fetch_first :: "nat ServerFetchResponse" where
  "ex_fetch_first = \<lparr>fetch_Server = ''s1'', fetch_Response = Some [ex_a],
                      fetch_Stats = Some 0, fetch_Err = Some new_Errors\<rparr>"

definition ex_fetch_second :: "nat ServerFetchResponse" where
  "ex_fetch_second = \<lparr>fetch_Server = ''s2'', fetch_Response = Some [ex_b\<lparr>StartTime := 60\<rparr>, ex_fine],
                       fetch_Stats = Some 0, fetch_Err = Some new_Errors\<rparr>"

definition ex_fetch_fatal :: "nat ServerFetchResponse" where
  "ex_fetch_fatal = \<lparr>fetch_Server = ''s3'', fetch_Response = Some [ex_b],
                      fetch_Stats = None,
                      fetch_Err = Some \<lparr>HaveFatalErrors = True, Errs = [ErrOther ''timeout'']\<rparr>\<rparr>"

definition ex_tag_first :: ServerTagResponse where
  "ex_tag_first = \<lparr>tag_Server = ''s1'', tag_Response = Some [''a'', ''b''], tag_Err = Some new_Errors\<rparr>"

definition ex_tag_second :: ServerTagResponse where
  "ex_tag_second = \<lparr>tag_Server = ''s2'', tag_Response = Some [''b'', ''c''],
                     tag_Err = Some \<lparr>HaveFatalErrors = True, Errs = [ErrOther ''timeout'']\<rparr>\<rparr>"

definition ex_tag_dup :: ServerTagResponse where
  "ex_tag_dup = \<lparr>tag_Server = ''s3'', tag_Response = Some [''c'', ''c''], tag_Err = Some new_Errors\<rparr>"

definition ex_info_first :: "(nat, nat) ServerInfoResponse" where
  "ex_info_first = \<lparr>info_Server = ''s1'',
                     info_Response = Some \<lparr>Info = Some [''m1'' \<mapsto> 1, ''m0'' \<mapsto> 7]\<rparr>,
                     info_Stats = Some 0, info_Err = Some new_Errors\<rparr>"

definition ex_info_second :: "(nat, nat) ServerInfoResponse" where
  "ex_info_second = \<lparr>info_Server = ''s2'',
                      info_Response = Some \<lparr>Info = Some [''m1'' \<mapsto> 2]\<rparr>,
                      info_Stats = Some 0, info_Err = Some new_Errors\<rparr>"

definition ex_find_first :: "nat ServerFindResponse" where
  "ex_find_first = \<lparr>find_Server = ''s1'',
                     find_Response = Some [\<lparr>glob_Name = ''a.b'', Matches = [\<lparr>Path = ''c'', IsLeaf = True\<rparr>]\<rparr>,
                                           \<lparr>glob_Name = ''a'', Matches = []\<rparr>],
                     find_Stats = Some 0, find_Err = Some new_Errors\<rparr>"

definition ex_find_second :: "nat ServerFindResponse" where
  "ex_find_second = \<lparr>find_Server = ''s2'',
                      find_Response = Some [\<lparr>glob_Name = ''a'', Matches = [\<lparr>Path = ''b.c'', IsLeaf = True\<rparr>]\<rparr>],
                      find_Stats = Some 0, find_Err = Some new_Errors\<rparr>"

definition ex_glob_first :: "nat ServerFindResponse" where
  "ex_glob_first = \<lparr>find_Server = ''s1'',
                     find_Response = Some [\<lparr>glob_Name = ''a.*'', Matches = [\<lparr>Path = ''a.b'', IsLeaf = True\<rparr>]\<rparr>],
                     find_Stats = Some 0, find_Err = Some new_Errors\<rparr>"

definition ex_glob_second :: "nat ServerFindResponse" where
  "ex_glob_second = \<lparr>find_Server = ''s2'',
                      find_Response = Some [\<lparr>glob_Name = ''a.*'',
                                              Matches = [\<lparr>Path = ''a.b'', IsLeaf = True\<rparr>,
                                                         \<lparr>Path = ''a.c'', IsLeaf = True\<rparr>]\<rparr>,
                                            \<lparr>glob_Name = ''x.*'', Matches = [\<lparr>Path = ''x.y'', IsLeaf = False\<rparr>]\<rparr>],
                      find_Stats = Some 0, find_Err = Some new_Errors\<rparr>"

section \<open>Properties of the per-series reconciler\<close>

text \<open>
  The gap-fill loop started at \<open>i\<close> never panics when the base is at least as long as
  the donor; it keeps the length and changes exactly the not-a-number cells below the donor's
  length, from \<open>i\<close> on.
\<close>

lemma fillLoop_no_panic:
  "length v2 \<le> length v1 \<Longrightarrow> \<exists>vs. fillLoop i v1 v2 = Inr vs \<and> length vs = length v1 \<and>
     (\<forall>k < length v1. vs ! k = (if i \<le> k \<and> k < length v2 \<and> IsNaN (v1 ! k) then v2 ! k else v1 ! k))"
proof (induction i v1 v2 rule: fillLoop.induct)
  case (1 i v1 v2)
  show ?case
  proof (cases "i < length v2")
    case False
    then show ?thesis by (subst fillLoop.simps) auto
  next
    case True
    with 1 have lt: "i < length v1" by simp
    let ?w = "if IsNaN (v1 ! i) then v1[i := v2 ! i] else v1"
    have len: "length v2 \<le> length ?w" using 1(2) by simp
    from 1(1)[OF True lt len] obtain vs where
      vs: "fillLoop (Suc i) ?w v2 = Inr vs" "length vs = length ?w"
        "\<forall>k < length ?w. vs ! k = (if Suc i \<le> k \<and> k < length v2 \<and> IsNaN (?w ! k) then v2 ! k else ?w ! k)"
      by blast
    have eq: "fillLoop i v1 v2 = Inr vs"
      using True lt vs(1) by (subst fillLoop.simps) simp
    have "\<forall>k < length v1. vs ! k = (if i \<le> k \<and> k < length v2 \<and> IsNaN (v1 ! k) then v2 ! k else v1 ! k)"
    proof (intro allI impI)
      fix k assume k: "k < length v1"
      then have "vs ! k = (if Suc i \<le> k \<and> k < length v2 \<and> IsNaN (?w ! k) then v2 ! k else ?w ! k)"
        using vs(3) by simp
      then show "vs ! k = (if i \<le> k \<and> k < length v2 \<and> IsNaN (v1 ! k) then v2 ! k else v1 ! k)"
        using True lt k by (cases "k = i") (auto simp: nth_list_update)
    qed
    then show ?thesis using eq vs(2) by simp
  qed
qed

lemma fillLoop_self: "fillLoop 0 v v = Inr v"
proof -
  from fillLoop_no_panic[of v v 0] obtain vs where
    vs: "fillLoop 0 v v = Inr vs" "length vs = length v"
        "\<forall>k < length v. vs ! k = (if 0 \<le> k \<and> k < length v \<and> IsNaN (v ! k) then v ! k else v ! k)"
    by auto
  have "vs = v" using vs(2,3) by (intro nth_equalityI) auto
  then show ?thesis using vs(1) by simp
qed

text \<open>
  C1. With equal requested start, step and start time, \<open>MergeFetchResponses\<close> succeeds and
  the values left in \<open>m1\<close> are those of the record with at least as many points (\<open>m1\<close>
  on a tie), each not-a-number cell below the other record's length replaced by the other
  record's value there; every other cell is the base's own. Merging a record with an identical
  copy leaves it as it was.
\<close>

theorem MergeFetchResponses_gap_fill:
  assumes "RequestStartTime m1 = RequestStartTime m2"
    and "StepTime m1 = StepTime m2"
    and "StartTime m1 = StartTime m2"
  shows "(\<exists>a b. MergeFetchResponses m1 m2 uuid = Inr (new_Errors, a, b) \<and>
           (let base = (if length (Values m1) < length (Values m2) then Values m2 else Values m1);
                other = (if length (Values m1) < length (Values m2) then Values m1 else Values m2)
            in length (Values a) = length base \<and>
               (\<forall>k < length base.
                  Values a ! k = (if k < length other \<and> IsNaN (base ! k) then other ! k else base ! k))))
         \<and> MergeFetchResponses m1 m1 uuid = Inr (new_Errors, m1, m1)"
proof (intro conjI)
  show "MergeFetchResponses m1 m1 uuid = Inr (new_Errors, m1, m1)"
    by (simp add: MergeFetchResponses_def mergeFetchResponsesWithEqualStepTimes_def
        fillLoop_self FromErr_def)
next
  show "\<exists>a b. MergeFetchResponses m1 m2 uuid = Inr (new_Errors, a, b) \<and>
           (let base = (if length (Values m1) < length (Values m2) then Values m2 else Values m1);
                other = (if length (Values m1) < length (Values m2) then Values m1 else Values m2)
            in length (Values a) = length base \<and>
               (\<forall>k < length base.
                  Values a ! k = (if k < length other \<and> IsNaN (base ! k) then other ! k else base ! k)))"
  proof (cases "length (Values m1) < length (Values m2)")
    case True
    then have le: "length (Values m1) \<le> length (Values m2)" by simp
    from fillLoop_no_panic[OF le, of 0] obtain vs where
      vs: "fillLoop 0 (Values m2) (Values m1) = Inr vs" "length vs = length (Values m2)"
        "\<forall>k < length (Values m2). vs ! k =
           (if 0 \<le> k \<and> k < length (Values m1) \<and> IsNaN (Values m2 ! k) then Values m1 ! k else Values m2 ! k)"
      by blast
    show ?thesis
      using assms True vs
      by (simp add: MergeFetchResponses_def mergeFetchResponsesWithEqualStepTimes_def
          swapFetchResponses_def FromErr_def)
  next
    case False
    then have le: "length (Values m2) \<le> length (Values m1)" by simp
    from fillLoop_no_panic[OF le, of 0] obtain vs where
      vs: "fillLoop 0 (Values m1) (Values m2) = Inr vs" "length vs = length (Values m1)"
        "\<forall>k < length (Values m1). vs ! k =
           (if 0 \<le> k \<and> k < length (Values m2) \<and> IsNaN (Values m1 ! k) then Values m2 ! k else Values m1 ! k)"
      by blast
    show ?thesis
      using assms False vs
      by (simp add: MergeFetchResponses_def mergeFetchResponsesWithEqualStepTimes_def FromErr_def)
  qed
qed

text \<open>The example of the spec: \<open>[1, NaN, 3]\<close> merged with \<open>[NaN, 2, NaN]\<close> gives \<open>[1, 2, 3]\<close>.\<close>

theorem MergeFetchResponses_gap_fill_witness:
  "RequestStartTime ex_a = RequestStartTime ex_b \<and> StepTime ex_a = StepTime ex_b \<and>
   StartTime ex_a = StartTime ex_b \<and>
   (\<exists>a b. MergeFetchResponses ex_a ex_b ''id'' = Inr (new_Errors, a, b) \<and>
      Values a = [Val 1, Val 2, Val 3]) \<and>
   MergeFetchResponses ex_a ex_a ''id'' = Inr (new_Errors, ex_a, ex_a)"
proof -
  have h: "RequestStartTime ex_a = RequestStartTime ex_b" "StepTime ex_a = StepTime ex_b"
    "StartTime ex_a = StartTime ex_b"
    by (simp_all add: ex_a_def ex_b_def)
  from MergeFetchResponses_gap_fill[OF h, of "''id''"] obtain a b where
    ab: "MergeFetchResponses ex_a ex_b ''id'' = Inr (new_Errors, a, b)"
    and len: "length (Values a) = 3"
    and nth: "\<forall>k<3. Values a ! k =
                (if k < 3 \<and> IsNaN ([Val 1, NaN, Val 3] ! k) then [NaN, Val 2, NaN] ! k
                 else [Val 1, NaN, Val 3] ! k)"
    and self: "MergeFetchResponses ex_a ex_a ''id'' = Inr (new_Errors, ex_a, ex_a)"
    by (auto simp: Let_def ex_a_def ex_b_def)
  have "Values a ! 0 = Val 1" "Values a ! Suc 0 = Val 2" "Values a ! Suc (Suc 0) = Val 3"
    using nth by (simp_all add: numeral_3_eq_3)
  then have "\<forall>k<3. Values a ! k = [Val 1, Val 2, Val 3] ! k"
    by (simp add: numeral_3_eq_3 less_Suc_eq)
  with len have "Values a = [Val 1, Val 2, Val 3]"
    by (intro nth_equalityI) simp_all
  with h ab self show ?thesis by blast
qed

text \<open>
  \<open>swapFetchResponses\<close> exchanges eight fields; \<open>RequestStartTime\<close> and \<open>RequestStopTime\<close>
  stay where they are. A coarse record merged with a finer one of another requested stop time
  therefore does not become the finer record: it keeps its own requested stop time.
\<close>

theorem unequal_step_result_not_finer_record:
  "MergeFetchResponses ex_coarse ex_fine ''id'' =
     Inr (new_Errors, ex_fine\<lparr>RequestStopTime := 100\<rparr>, ex_coarse\<lparr>RequestStopTime := 200\<rparr>)
   \<and> RequestStartTime ex_coarse = RequestStartTime ex_fine
   \<and> StepTime ex_fine < StepTime ex_coarse
   \<and> ex_fine\<lparr>RequestStopTime := 100\<rparr> \<noteq> ex_fine"
  by (simp add: MergeFetchResponses_def mergeFetchResponsesWithUnequalStepTimes_def
      swapFetchResponses_def FromErr_def ex_coarse_def ex_fine_def)

text \<open>
  C4 (amended). With equal requested start and unequal step, \<open>MergeFetchResponses\<close> succeeds
  and leaves in \<open>m1\<close> the smaller-step record's values and every field the swap moves (name,
  start, stop and step time, consolidation function, x-files-factor, applied functions), with
  \<open>m1\<close>'s own requested start and stop time; no value of the larger-step record is combined.
\<close>

theorem MergeFetchResponses_unequal_step:
  assumes "RequestStartTime m1 = RequestStartTime m2"
    and "StepTime m1 \<noteq> StepTime m2"
  shows "\<exists>a b. MergeFetchResponses m1 m2 uuid = Inr (new_Errors, a, b) \<and>
           (let finer = (if StepTime m2 < StepTime m1 then m2 else m1)
            in a = finer\<lparr>RequestStartTime := RequestStartTime m1,
                         RequestStopTime := RequestStopTime m1\<rparr> \<and>
               Values a = Values finer \<and> StepTime a = min (StepTime m1) (StepTime m2))"
  using assms
  by (simp add: MergeFetchResponses_def mergeFetchResponsesWithUnequalStepTimes_def
      swapFetchResponses_def FromErr_def)

theorem MergeFetchResponses_unequal_step_witness:
  "RequestStartTime ex_coarse = RequestStartTime ex_fine \<and> StepTime ex_coarse \<noteq> StepTime ex_fine \<and>
   (\<exists>a b. MergeFetchResponses ex_coarse ex_fine ''id'' = Inr (new_Errors, a, b) \<and>
      Values a = [Val 5, NaN, Val 7] \<and> StepTime a = 10 \<and> RequestStopTime a = 100)"
proof -
  have h: "RequestStartTime ex_coarse = RequestStartTime ex_fine" "StepTime ex_coarse \<noteq> StepTime ex_fine"
    by (simp_all add: ex_coarse_def ex_fine_def)
  from MergeFetchResponses_unequal_step[OF h, of "''id''"] obtain a b where
    ab: "MergeFetchResponses ex_coarse ex_fine ''id'' = Inr (new_Errors, a, b)"
      "a = ex_fine\<lparr>RequestStartTime := RequestStartTime ex_coarse, RequestStopTime := RequestStopTime ex_coarse\<rparr>"
    by (auto simp: Let_def ex_coarse_def ex_fine_def)
  have "Values a = [Val 5, NaN, Val 7] \<and> StepTime a = 10 \<and> RequestStopTime a = 100"
    using ab(2) by (simp add: ex_coarse_def ex_fine_def)
  then show ?thesis using h ab(1) by blast
qed

text \<open>
  In the equal-step merge the record with fewer points takes over the longer record's swapped
  fields, yet keeps its own requested window.
\<close>

theorem equal_step_swap_keeps_request_window:
  "mergeFetchResponsesWithEqualStepTimes ex_short ex_long ''id'' =
     Inr (None, ex_long\<lparr>Values := [Val 1, Val 2], RequestStopTime := 100\<rparr>,
          ex_short\<lparr>RequestStopTime := 200\<rparr>)
   \<and> length (Values ex_short) < length (Values ex_long)
   \<and> RequestStopTime (ex_long\<lparr>Values := [Val 1, Val 2], RequestStopTime := 100\<rparr>)
       \<noteq> RequestStopTime ex_long"
  by (simp add: mergeFetchResponsesWithEqualStepTimes_def swapFetchResponses_def
      fillLoop.simps ex_short_def ex_long_def)

text \<open>
  C5 (amended). In the equal-step merge, when the first record has fewer points than the second:
  if the two start times are equal, the result takes name, start, stop and step time,
  consolidation function, x-files-factor and applied functions from the longer record, and its
  values with the gaps filled, while requested start and stop time are not exchanged and remain
  those of the first record; if the start times differ, the merge returns the start-time
  mismatch before any swap and leaves both records as they were.
\<close>

theorem equal_step_swap_fields:
  assumes "length (Values m1) < length (Values m2)"
  shows "(StartTime m1 = StartTime m2 \<longrightarrow>
           (\<exists>a b. mergeFetchResponsesWithEqualStepTimes m1 m2 uuid = Inr (None, a, b) \<and>
              Name a = Name m2 \<and> StartTime a = StartTime m2 \<and> StopTime a = StopTime m2 \<and>
              StepTime a = StepTime m2 \<and> ConsolidationFunc a = ConsolidationFunc m2 \<and>
              XFilesFactor a = XFilesFactor m2 \<and> AppliedFunctions a = AppliedFunctions m2 \<and>
              length (Values a) = length (Values m2) \<and>
              (\<forall>k < length (Values m2).
                 Values a ! k = (if k < length (Values m1) \<and> IsNaN (Values m2 ! k)
                                 then Values m1 ! k else Values m2 ! k)) \<and>
              RequestStartTime a = RequestStartTime m1 \<and> RequestStopTime a = RequestStopTime m1))
         \<and> (StartTime m1 \<noteq> StartTime m2 \<longrightarrow>
              mergeFetchResponsesWithEqualStepTimes m1 m2 uuid =
                Inr (Some ErrResponseStartTimeMismatch, m1, m2))"
proof (intro conjI impI)
  assume st: "StartTime m1 = StartTime m2"
  from assms have le: "length (Values m1) \<le> length (Values m2)" by simp
  from fillLoop_no_panic[OF le, of 0] obtain vs where
    vs: "fillLoop 0 (Values m2) (Values m1) = Inr vs" "length vs = length (Values m2)"
      "\<forall>k < length (Values m2). vs ! k =
         (if 0 \<le> k \<and> k < length (Values m1) \<and> IsNaN (Values m2 ! k) then Values m1 ! k else Values m2 ! k)"
    by blast
  show "\<exists>a b. mergeFetchResponsesWithEqualStepTimes m1 m2 uuid = Inr (None, a, b) \<and>
              Name a = Name m2 \<and> StartTime a = StartTime m2 \<and> StopTime a = StopTime m2 \<and>
              StepTime a = StepTime m2 \<and> ConsolidationFunc a = ConsolidationFunc m2 \<and>
              XFilesFactor a = XFilesFactor m2 \<and> AppliedFunctions a = AppliedFunctions m2 \<and>
              length (Values a) = length (Values m2) \<and>
              (\<forall>k < length (Values m2).
                 Values a ! k = (if k < length (Values m1) \<and> IsNaN (Values m2 ! k)
                                 then Values m1 ! k else Values m2 ! k)) \<and>
              RequestStartTime a = RequestStartTime m1 \<and> RequestStopTime a = RequestStopTime m1"
    using st assms vs
    by (simp add: mergeFetchResponsesWithEqualStepTimes_def swapFetchResponses_def)
next
  assume "StartTime m1 \<noteq> StartTime m2"
  then show "mergeFetchResponsesWithEqualStepTimes m1 m2 uuid =
                Inr (Some ErrResponseStartTimeMismatch, m1, m2)"
    by (simp add: mergeFetchResponsesWithEqualStepTimes_def)
qed

theorem equal_step_swap_fields_witness:
  "StartTime ex_short = StartTime ex_long \<and> length (Values ex_short) < length (Values ex_long) \<and>
   (\<exists>a b. mergeFetchResponsesWithEqualStepTimes ex_short ex_long ''id'' = Inr (None, a, b) \<and>
      Name a = ''cpu.load'' \<and> ConsolidationFunc a = ''sum'' \<and> StopTime a = 120 \<and>
      RequestStopTime a = 100) \<and>
   StartTime (ex_short\<lparr>StartTime := 60\<rparr>) \<noteq> StartTime ex_long \<and>
   length (Values (ex_short\<lparr>StartTime := 60\<rparr>)) < length (Values ex_long) \<and>
   mergeFetchResponsesWithEqualStepTimes (ex_short\<lparr>StartTime := 60\<rparr>) ex_long ''id'' =
     Inr (Some ErrResponseStartTimeMismatch, ex_short\<lparr>StartTime := 60\<rparr>, ex_long)"
proof -
  have h: "StartTime ex_short = StartTime ex_long" "length (Values ex_short) < length (Values ex_long)"
    by (simp_all add: ex_short_def ex_long_def)
  from equal_step_swap_fields[OF h(2), of "''id''"] h(1) obtain a b where
    ab: "mergeFetchResponsesWithEqualStepTimes ex_short ex_long ''id'' = Inr (None, a, b)"
      "Name a = Name ex_long" "ConsolidationFunc a = ConsolidationFunc ex_long"
      "StopTime a = StopTime ex_long" "RequestStopTime a = RequestStopTime ex_short"
    by blast
  have v: "Name a = ''cpu.load'' \<and> ConsolidationFunc a = ''sum'' \<and> StopTime a = 120 \<and>
      RequestStopTime a = 100"
    using ab(2-5) by (simp add: ex_short_def ex_long_def)
  have g: "StartTime (ex_short\<lparr>StartTime := 60\<rparr>) \<noteq> StartTime ex_long"
    "length (Values (ex_short\<lparr>StartTime := 60\<rparr>)) < length (Values ex_long)"
    by (simp_all add: ex_short_def ex_long_def)
  from equal_step_swap_fields[OF g(2), of "''id''"] g(1)
  have m: "mergeFetchResponsesWithEqualStepTimes (ex_short\<lparr>StartTime := 60\<rparr>) ex_long ''id'' =
     Inr (Some ErrResponseStartTimeMismatch, ex_short\<lparr>StartTime := 60\<rparr>, ex_long)"
    by blast
  from h v ab(1) g m show ?thesis by blast
qed

text \<open>After a swap the second record holds the first one's swapped fields, not its requested window.\<close>

theorem swap_leaves_donor_request_window:
  "MergeFetchResponses ex_short ex_long ''id'' =
     Inr (new_Errors, ex_long\<lparr>Values := [Val 1, Val 2], RequestStopTime := 100\<rparr>,
          ex_short\<lparr>RequestStopTime := 200\<rparr>)
   \<and> ex_short\<lparr>RequestStopTime := 200\<rparr> \<noteq> ex_short"
  by (simp add: MergeFetchResponses_def mergeFetchResponsesWithEqualStepTimes_def
      swapFetchResponses_def FromErr_def fillLoop.simps ex_short_def ex_long_def)

text \<open>
  C10 (amended). The reconciler writes its second argument too: whenever a swap occurs (fewer
  points in the first record under equal steps, or a larger step in the first record), the
  second record afterwards holds the first record's original name, start, stop and step time,
  consolidation function, x-files-factor, values and applied functions, and keeps its own
  requested start and stop time.
\<close>

theorem MergeFetchResponses_donor_after_swap:
  assumes "RequestStartTime m1 = RequestStartTime m2"
    and "(StepTime m1 = StepTime m2 \<and> StartTime m1 = StartTime m2 \<and>
          length (Values m1) < length (Values m2))
         \<or> StepTime m2 < StepTime m1"
  shows "\<exists>a. MergeFetchResponses m1 m2 uuid =
           Inr (new_Errors, a,
                m1\<lparr>RequestStartTime := RequestStartTime m2,
                   RequestStopTime := RequestStopTime m2\<rparr>)"
proof (cases "StepTime m1 = StepTime m2")
  case True
  with assms(2) have st: "StartTime m1 = StartTime m2"
    and lt: "length (Values m1) < length (Values m2)" by auto
  from lt have le: "length (Values m1) \<le> length (Values m2)" by simp
  from fillLoop_no_panic[OF le, of 0] obtain vs where
    vs: "fillLoop 0 (Values m2) (Values m1) = Inr vs" by blast
  show ?thesis
    using assms(1) True st lt vs
    by (simp add: MergeFetchResponses_def mergeFetchResponsesWithEqualStepTimes_def
        swapFetchResponses_def FromErr_def)
next
  case False
  with assms(2) have "StepTime m2 < StepTime m1" by auto
  then show ?thesis
    using assms(1) False
    by (simp add: MergeFetchResponses_def mergeFetchResponsesWithUnequalStepTimes_def
        swapFetchResponses_def FromErr_def)
qed

theorem MergeFetchResponses_donor_after_swap_witness:
  "RequestStartTime ex_coarse = RequestStartTime ex_fine \<and> StepTime ex_fine < StepTime ex_coarse \<and>
   (\<exists>a. MergeFetchResponses ex_coarse ex_fine ''id'' =
           Inr (new_Errors, a, ex_coarse\<lparr>RequestStopTime := 200\<rparr>))"
proof -
  have h: "RequestStartTime ex_coarse = RequestStartTime ex_fine"
    and s: "StepTime ex_fine < StepTime ex_coarse"
    by (simp_all add: ex_coarse_def ex_fine_def)
  from MergeFetchResponses_donor_after_swap[OF h disjI2, OF s, of "''id''"]
  obtain a where "MergeFetchResponses ex_coarse ex_fine ''id'' =
           Inr (new_Errors, a, ex_coarse\<lparr>RequestStartTime := RequestStartTime ex_fine,
                   RequestStopTime := RequestStopTime ex_fine\<rparr>)" by blast
  moreover have "ex_coarse\<lparr>RequestStartTime := RequestStartTime ex_fine,
                   RequestStopTime := RequestStopTime ex_fine\<rparr> = ex_coarse\<lparr>RequestStopTime := 200\<rparr>"
    by (simp add: ex_coarse_def ex_fine_def)
  ultimately show ?thesis using h s by auto
qed

section \<open>Properties of the fetch aggregate\<close>

text \<open>
  C3. When the error aggregate obtained by merging the two aggregates' errors carries a fatal
  error, \<open>ServerFetchResponse.Merge\<close> returns with the series of \<open>first\<close> exactly as they
  were and without touching \<open>second\<close>; the only other outcome is the nil dereference of a
  missing \<open>first.Stats\<close>, which happens before the series are looked at.
\<close>

theorem fetch_Merge_fatal_stops:
  assumes "HaveFatalErrors (mergeErr (fetch_Err first) (fetch_Err second))"
  shows "(fetch_Stats first = None \<and> fetch_Stats second \<noteq> None \<longrightarrow>
            fetch_Merge smerge first second uuid = Inl NilPointerDereference) \<and>
         (fetch_Stats first \<noteq> None \<or> fetch_Stats second = None \<longrightarrow>
            (\<exists>first'. fetch_Merge smerge first second uuid = Inr (first', second) \<and>
                fetch_Response first' = fetch_Response first \<and>
                fetch_Err first' = Some (mergeErr (fetch_Err first) (fetch_Err second))))"
  using assms
  by (auto simp: fetch_Merge_def mergeStats_def Let_def split: option.splits)

theorem fetch_Merge_fatal_stops_witness:
  "HaveFatalErrors (mergeErr (fetch_Err ex_fetch_first) (fetch_Err ex_fetch_fatal)) \<and>
   (\<exists>first'. fetch_Merge (+) ex_fetch_first ex_fetch_fatal ''id'' = Inr (first', ex_fetch_fatal) \<and>
       fetch_Response first' = Some [ex_a])"
proof -
  have h: "HaveFatalErrors (mergeErr (fetch_Err ex_fetch_first) (fetch_Err ex_fetch_fatal))"
    by (simp add: mergeErr_def Errors_Merge_def new_Errors_def ex_fetch_first_def ex_fetch_fatal_def)
  have s: "fetch_Stats ex_fetch_first \<noteq> None \<or> fetch_Stats ex_fetch_fatal = None"
    by (simp add: ex_fetch_fatal_def)
  from fetch_Merge_fatal_stops[OF h, of "(+)" "''id''"] s obtain first' where
    "fetch_Merge (+) ex_fetch_first ex_fetch_fatal ''id'' = Inr (first', ex_fetch_fatal)"
    "fetch_Response first' = fetch_Response ex_fetch_first"
    by blast
  then show ?thesis using h by (auto simp: ex_fetch_first_def)
qed

text \<open>
  C2. The reconciler returns the start-time mismatch for a pair of records with the same
  key, equal step and different start time. \<open>ServerFetchResponse.Merge\<close> tests the returned
  aggregate and drops it (line 272: \<open>TODO: Normal error handling\<close>): afterwards the error
  aggregate of \<open>first\<close> holds no error and no fatal flag. The pair is left uncombined and the
  next record of \<open>second\<close> is still appended.
\<close>

theorem fetch_Merge_drops_reconciler_error:
  "MergeFetchResponses ex_a (ex_b\<lparr>StartTime := 60\<rparr>) ''id'' =
     Inr (\<lparr>HaveFatalErrors = True, Errs = [ErrResponseStartTimeMismatch]\<rparr>, ex_a, ex_b\<lparr>StartTime := 60\<rparr>)
   \<and> coordinates ex_a = coordinates (ex_b\<lparr>StartTime := 60\<rparr>)
   \<and> fetch_Merge (+) ex_fetch_first ex_fetch_second ''id'' =
       Inr (ex_fetch_first\<lparr>fetch_Response := Some [ex_a, ex_fine],
                           fetch_Err := Some \<lparr>HaveFatalErrors = False, Errs = []\<rparr>\<rparr>,
            ex_fetch_second)"
  by (simp add: MergeFetchResponses_def mergeFetchResponsesWithEqualStepTimes_def FromErr_def
      fetch_Merge_def mergeStats_def mergeErr_def Errors_Merge_def new_Errors_def coordinates_def
      ex_fetch_first_def ex_fetch_second_def ex_a_def ex_b_def ex_fine_def)

section \<open>Properties of the tag aggregate\<close>

lemma elems_append_slice: "elems (append_slice s v) = elems s @ [v]"
  by (cases s) (simp_all add: elems_def append_slice_def)

lemma elems_tagLoop: "elems (tagLoop M resp vs) = elems resp @ filter (\<lambda>v. v \<notin> M) vs"
  by (induction vs arbitrary: resp) (simp_all add: elems_append_slice)

text \<open>
  The membership set is built from \<open>first\<close> alone, so a name that \<open>second\<close> repeats and
  \<open>first\<close> lacks is appended at each occurrence.
\<close>

theorem tag_Merge_duplicates_in_second:
  "tag_Merge ex_tag_first ex_tag_dup =
     (ex_tag_first\<lparr>tag_Response := Some [''a'', ''b'', ''c'', ''c'']\<rparr>, None)
   \<and> distinct (elems (tag_Response ex_tag_first)) \<and> tag_Response ex_tag_dup \<noteq> None
   \<and> \<not> distinct [''a'', ''b'', ''c'', ''c'']"
  by (simp add: tag_Merge_def elems_def append_slice_def mergeErr_def Errors_Merge_def
      new_Errors_def ex_tag_first_def ex_tag_dup_def)

text \<open>
  C7 (amended). With a non-nil \<open>second.Response\<close>, the names of \<open>first\<close> afterwards are its
  former names, in order, followed by every name of \<open>second\<close> that is not among them, in
  \<open>second\<close>'s order. When both lists are duplicate-free this is the order-preserving set union:
  no name twice, and exactly the names of either list.
\<close>

theorem tag_Merge_union:
  assumes "tag_Response second = Some vs"
  shows "elems (tag_Response (fst (tag_Merge first second))) =
           elems (tag_Response first) @ filter (\<lambda>v. v \<notin> set (elems (tag_Response first))) vs
         \<and> (distinct (elems (tag_Response first)) \<and> distinct vs \<longrightarrow>
              distinct (elems (tag_Response (fst (tag_Merge first second)))) \<and>
              set (elems (tag_Response (fst (tag_Merge first second)))) =
                set (elems (tag_Response first)) \<union> set vs)"
proof -
  have eq: "elems (tag_Response (fst (tag_Merge first second))) =
           elems (tag_Response first) @ filter (\<lambda>v. v \<notin> set (elems (tag_Response first))) vs"
    using assms by (simp add: tag_Merge_def Let_def elems_tagLoop)
  show ?thesis unfolding eq by auto
qed

theorem tag_Merge_union_witness:
  "tag_Response ex_tag_second = Some [''b'', ''c''] \<and>
   distinct (elems (tag_Response ex_tag_first)) \<and> distinct [''b'', ''c''] \<and>
   elems (tag_Response (fst (tag_Merge ex_tag_first ex_tag_second))) = [''a'', ''b'', ''c''] \<and>
   distinct (elems (tag_Response (fst (tag_Merge ex_tag_first ex_tag_second)))) \<and>
   set (elems (tag_Response (fst (tag_Merge ex_tag_first ex_tag_second)))) = {''a'', ''b'', ''c''}"
proof -
  have h: "tag_Response ex_tag_second = Some [''b'', ''c'']" by (simp add: ex_tag_second_def)
  have d: "distinct (elems (tag_Response ex_tag_first)) \<and> distinct [''b'', ''c'']"
    by (simp add: ex_tag_first_def elems_def)
  note t = tag_Merge_union[OF h, of ex_tag_first]
  from t have eq: "elems (tag_Response (fst (tag_Merge ex_tag_first ex_tag_second))) =
           elems (tag_Response ex_tag_first) @
           filter (\<lambda>v. v \<notin> set (elems (tag_Response ex_tag_first))) [''b'', ''c'']"
    by blast
  from t d have u: "distinct (elems (tag_Response (fst (tag_Merge ex_tag_first ex_tag_second))))"
    "set (elems (tag_Response (fst (tag_Merge ex_tag_first ex_tag_second)))) =
       set (elems (tag_Response ex_tag_first)) \<union> set [''b'', ''c'']"
    by blast+
  have l: "elems (tag_Response (fst (tag_Merge ex_tag_first ex_tag_second))) = [''a'', ''b'', ''c'']"
    using eq by (simp add: ex_tag_first_def elems_def)
  have s: "set (elems (tag_Response (fst (tag_Merge ex_tag_first ex_tag_second)))) = {''a'', ''b'', ''c''}"
    unfolding u(2) by (auto simp: ex_tag_first_def elems_def)
  from h d l u(1) s show ?thesis by blast
qed

section \<open>Properties of the info aggregate\<close>

text \<open>
  C8. \<open>ServerInfoResponse.Merge\<close> returns whenever \<open>first\<close> has a body with a map (and
  statistics if \<open>second\<close> has). When it returns and \<open>second.Response\<close> is not nil, each key of
  \<open>second\<close>'s map carries \<open>second\<close>'s value and every other key keeps \<open>first\<close>'s; when
  \<open>second.Response\<close> is nil the body of \<open>first\<close> is untouched.
\<close>

theorem info_Merge_last_write_wins:
  "(\<forall>r1 m1. info_Response first = Some r1 \<and> Info r1 = Some m1 \<and>
       (info_Stats first \<noteq> None \<or> info_Stats second = None) \<longrightarrow>
       (\<exists>first' ret. info_Merge smerge first second = Inr (first', ret)))
   \<and> (\<forall>first' ret. info_Merge smerge first second = Inr (first', ret) \<longrightarrow>
         (info_Response second \<noteq> None \<longrightarrow>
            (\<forall>k. info_of first' k =
                   (case info_of second k of Some v \<Rightarrow> Some v | None \<Rightarrow> info_of first k)))
         \<and> (info_Response second = None \<longrightarrow> info_Response first' = info_Response first))"
proof (intro conjI allI impI)
  fix r1 m1
  assume "info_Response first = Some r1 \<and> Info r1 = Some m1 \<and>
       (info_Stats first \<noteq> None \<or> info_Stats second = None)"
  then show "\<exists>first' ret. info_Merge smerge first second = Inr (first', ret)"
    by (auto simp: info_Merge_def mergeStats_def infoLoop_def Let_def split: option.splits)
next
  fix first' ret k
  assume m: "info_Merge smerge first second = Inr (first', ret)"
    and s: "info_Response second \<noteq> None"
  from s obtain r2 where r2: "info_Response second = Some r2" by auto
  from m r2 obtain resp where
    resp: "infoLoop (info_Response first) (entries (Info r2)) = Inr resp"
      "info_Response first' = resp"
    by (auto simp: info_Merge_def Let_def split: sum.splits)
  have "info_of first' = info_of first ++ info_of second"
    using resp r2
    by (auto simp: infoLoop_def info_of_def entries_def split: if_splits option.splits)
  then show "info_of first' k = (case info_of second k of Some v \<Rightarrow> Some v | None \<Rightarrow> info_of first k)"
    by (simp add: map_add_def split: option.splits)
next
  fix first' ret
  assume "info_Merge smerge first second = Inr (first', ret)" "info_Response second = None"
  then show "info_Response first' = info_Response first"
    by (auto simp: info_Merge_def Let_def split: sum.splits)
qed


theorem info_Merge_last_write_wins_witness:
  "\<exists>first' ret. info_Merge (+) ex_info_first ex_info_second = Inr (first', ret) \<and>
      info_of first' ''m1'' = Some 2 \<and> info_of first' ''m0'' = Some 7"
proof -
  note t = info_Merge_last_write_wins[of ex_info_first ex_info_second "(+)"]
  have pre: "info_Response ex_info_first = Some \<lparr>Info = Some [''m1'' \<mapsto> 1, ''m0'' \<mapsto> 7]\<rparr> \<and>
     Info \<lparr>Info = Some [''m1'' \<mapsto> (1::nat), ''m0'' \<mapsto> 7]\<rparr> = Some [''m1'' \<mapsto> 1, ''m0'' \<mapsto> 7] \<and>
     (info_Stats ex_info_first \<noteq> None \<or> info_Stats ex_info_second = None)"
    by (simp add: ex_info_first_def)
  from t pre obtain first' ret where
    m: "info_Merge (+) ex_info_first ex_info_second = Inr (first', ret)" by blast
  have s: "info_Response ex_info_second \<noteq> None" by (simp add: ex_info_second_def)
  from t m s have k: "\<And>k. info_of first' k =
      (case info_of ex_info_second k of Some v \<Rightarrow> Some v | None \<Rightarrow> info_of ex_info_first k)"
    by blast
  have "info_of first' ''m1'' = Some 2" "info_of first' ''m0'' = Some 7"
    unfolding k by (simp_all add: info_of_def entries_def ex_info_first_def ex_info_second_def)
  with m show ?thesis by blast
qed

section \<open>What the three Merge operations return\<close>

text \<open>
  With a non-nil body in \<open>second\<close> the tag merge returns nil, although the merged
  aggregate carries a fatal error.
\<close>

theorem tag_Merge_returns_nil:
  "tag_Merge ex_tag_first ex_tag_second =
     (ex_tag_first\<lparr>tag_Response := Some [''a'', ''b'', ''c''],
                   tag_Err := Some \<lparr>HaveFatalErrors = True, Errs = [ErrOther ''timeout'']\<rparr>\<rparr>,
      None)
   \<and> mergeErr (tag_Err ex_tag_first) (tag_Err ex_tag_second) =
       \<lparr>HaveFatalErrors = True, Errs = [ErrOther ''timeout'']\<rparr>
   \<and> tag_Response ex_tag_second \<noteq> None"
  by (simp add: tag_Merge_def elems_def append_slice_def mergeErr_def Errors_Merge_def
      new_Errors_def ex_tag_first_def ex_tag_second_def)

text \<open>
  C9 (amended). The tag, info and find \<open>Merge\<close> always store the merged error aggregate in
  the receiver. They return it when \<open>second.Response\<close> is nil, and return nil when
  \<open>second.Response\<close> is not nil.
\<close>

theorem Merge_return_values:
  "(tag_Err (fst (tag_Merge tfirst tsecond)) = Some (mergeErr (tag_Err tfirst) (tag_Err tsecond)) \<and>
    snd (tag_Merge tfirst tsecond) =
      (if tag_Response tsecond = None then Some (mergeErr (tag_Err tfirst) (tag_Err tsecond)) else None))
   \<and> (\<forall>first' ret. info_Merge smerge ifirst isecond = Inr (first', ret) \<longrightarrow>
         info_Err first' = Some (mergeErr (info_Err ifirst) (info_Err isecond)) \<and>
         ret = (if info_Response isecond = None
                then Some (mergeErr (info_Err ifirst) (info_Err isecond)) else None))
   \<and> (\<forall>first' ret. find_Merge smerge' ffirst fsecond = Inr (first', ret) \<longrightarrow>
         find_Err first' = Some (mergeErr (find_Err ffirst) (find_Err fsecond)) \<and>
         ret = (if find_Response fsecond = None
                then Some (mergeErr (find_Err ffirst) (find_Err fsecond)) else None))"
proof (intro conjI allI impI)
  show "tag_Err (fst (tag_Merge tfirst tsecond)) = Some (mergeErr (tag_Err tfirst) (tag_Err tsecond))"
    by (simp add: tag_Merge_def Let_def split: option.splits)
  show "snd (tag_Merge tfirst tsecond) =
      (if tag_Response tsecond = None then Some (mergeErr (tag_Err tfirst) (tag_Err tsecond)) else None)"
    by (simp add: tag_Merge_def Let_def split: option.splits)
next
  fix first' ret
  assume m: "info_Merge smerge ifirst isecond = Inr (first', ret)"
  show "info_Err first' = Some (mergeErr (info_Err ifirst) (info_Err isecond))"
    using m by (auto simp: info_Merge_def Let_def split: sum.splits option.splits)
  show "ret = (if info_Response isecond = None
                then Some (mergeErr (info_Err ifirst) (info_Err isecond)) else None)"
    using m by (auto simp: info_Merge_def Let_def split: sum.splits option.splits)
next
  fix first' ret
  assume m: "find_Merge smerge' ffirst fsecond = Inr (first', ret)"
  show "find_Err first' = Some (mergeErr (find_Err ffirst) (find_Err fsecond))"
    using m by (auto simp: find_Merge_def Let_def split: sum.splits option.splits prod.splits)
  show "ret = (if find_Response fsecond = None
                then Some (mergeErr (find_Err ffirst) (find_Err fsecond)) else None)"
    using m by (auto simp: find_Merge_def Let_def split: sum.splits option.splits prod.splits)
qed

theorem Merge_return_values_witness:
  "snd (tag_Merge ex_tag_first ex_tag_second) = None \<and>
   snd (tag_Merge ex_tag_first (ex_tag_second\<lparr>tag_Response := None\<rparr>)) =
     Some \<lparr>HaveFatalErrors = True, Errs = [ErrOther ''timeout'']\<rparr> \<and>
   (\<exists>first'. info_Merge (+) ex_info_first ex_info_second = Inr (first', None)) \<and>
   (\<exists>first'. find_Merge (+) ex_find_first ex_find_second = Inr (first', None))"
proof -
  note t = Merge_return_values[of ex_tag_first ex_tag_second "(+)" ex_info_first ex_info_second
      "(+)" ex_find_first ex_find_second]
  note u = Merge_return_values[of ex_tag_first "ex_tag_second\<lparr>tag_Response := None\<rparr>"
      "(+)" ex_info_first ex_info_second "(+)" ex_find_first ex_find_second]
  have 1: "snd (tag_Merge ex_tag_first ex_tag_second) = None"
    using t by (simp add: ex_tag_second_def)
  have 2: "snd (tag_Merge ex_tag_first (ex_tag_second\<lparr>tag_Response := None\<rparr>)) =
     Some \<lparr>HaveFatalErrors = True, Errs = [ErrOther ''timeout'']\<rparr>"
    using u by (simp add: ex_tag_first_def ex_tag_second_def mergeErr_def Errors_Merge_def new_Errors_def)
  obtain i r where i: "info_Merge (+) ex_info_first ex_info_second = Inr (i, r)"
    by (simp add: info_Merge_def mergeStats_def infoLoop_def entries_def Let_def
        ex_info_first_def ex_info_second_def)
  with t have "r = None" by (simp add: ex_info_second_def)
  with i have 3: "\<exists>first'. info_Merge (+) ex_info_first ex_info_second = Inr (first', None)" by blast
  obtain f q where f: "find_Merge (+) ex_find_first ex_find_second = Inr (f, q)"
    by (simp add: find_Merge_def mergeStats_def matchKey_def Let_def
        ex_find_first_def ex_find_second_def)
  with t have "q = None" by (simp add: ex_find_second_def)
  with f have 4: "\<exists>first'. find_Merge (+) ex_find_first ex_find_second = Inr (first', None)" by blast
  from 1 2 3 4 show ?thesis by blast
qed

section \<open>Properties of the find aggregate\<close>

subsection \<open>Keeping the unseen\<close>

lemma unseen_Nil [simp]: "unseen seen key [] = []"
  by (simp add: unseen_def)

lemma unseen_Cons:
  "unseen seen key (x # xs) =
     (if key x \<in> seen then unseen seen key xs else x # unseen (insert (key x) seen) key xs)"
proof -
  let ?P = "\<lambda>j. key ((x # xs) ! j) \<notin> seen \<union> key ` set (take j (x # xs))"
  have upt: "[0..<length (x # xs)] = 0 # map Suc [0..<length xs]"
    by (simp add: upt_conv_Cons map_Suc_upt del: upt_Suc)
  have "filter ?P (map Suc [0..<length xs]) =
          map Suc (filter (\<lambda>j. key (xs ! j) \<notin> insert (key x) seen \<union> key ` set (take j xs))
                     [0..<length xs])"
    unfolding filter_map comp_def
    by (rule arg_cong[where f = "map Suc"], rule filter_cong) auto
  then have tail: "map (nth (x # xs)) (filter ?P (map Suc [0..<length xs]))
                = unseen (insert (key x) seen) key xs"
    by (simp add: unseen_def comp_def del: upt_Suc)
  have P0: "?P 0 \<longleftrightarrow> key x \<notin> seen" by simp
  have "unseen seen key (x # xs) = map (nth (x # xs)) (filter ?P (0 # map Suc [0..<length xs]))"
    unfolding unseen_def upt ..
  also have "\<dots> = (if key x \<notin> seen then [x] else []) @ map (nth (x # xs)) (filter ?P (map Suc [0..<length xs]))"
    using P0 by (simp del: upt_Suc)
  also have "\<dots> = (if key x \<notin> seen then [x] else []) @ unseen (insert (key x) seen) key xs"
    unfolding tail ..
  finally have eq: "unseen seen key (x # xs) =
      (if key x \<notin> seen then [x] else []) @ unseen (insert (key x) seen) key xs" .
  show ?thesis
  proof (cases "key x \<in> seen")
    case True
    then have "insert (key x) seen = seen" by auto
    with True eq show ?thesis by simp
  next
    case False
    with eq show ?thesis by simp
  qed
qed



lemma unseen_append:
  "unseen seen key (xs @ ys) = unseen seen key xs @ unseen (seen \<union> key ` set xs) key ys"
proof (induction xs arbitrary: seen)
  case Nil
  then show ?case by simp
next
  case (Cons x xs)
  show ?case
  proof (cases "key x \<in> seen")
    case True
    then have "seen \<union> key ` set (x # xs) = seen \<union> key ` set xs" by auto
    with True Cons[of seen] show ?thesis by (simp only: append_Cons unseen_Cons if_True)
  next
    case False
    have "seen \<union> key ` set (x # xs) = insert (key x) seen \<union> key ` set xs" by auto
    with False Cons[of "insert (key x) seen"] show ?thesis
      by (simp only: append_Cons unseen_Cons if_False)
  qed
qed

lemma unseen_map_Pair:
  "unseen seen key (map (Pair i) ms) = map (Pair i) (unseen seen (\<lambda>mm. key (i, mm)) ms)"
proof (induction ms arbitrary: seen)
  case Nil
  then show ?case by simp
next
  case (Cons m ms)
  show ?case
    using Cons[of seen] Cons[of "insert (key (i, m)) seen"]
    by (simp only: list.map unseen_Cons split: if_splits) simp
qed

lemma set_unseen: "set (unseen seen key xs) \<subseteq> set xs"
proof (induction xs arbitrary: seen)
  case Nil
  then show ?case by simp
next
  case (Cons x xs)
  show ?case
    using Cons[of seen] Cons[of "insert (key x) seen"]
    by (cases "key x \<in> seen") (auto simp only: unseen_Cons if_True if_False list.set)
qed

subsection \<open>The inner loop\<close>

lemma length_applyKept [simp]: "length (applyKept fs ks) = length fs"
  by (induction fs ks rule: applyKept.induct) simp_all

lemma applyKept_append: "applyKept fs (ks @ ks') = applyKept (applyKept fs ks) ks'"
  by (induction fs ks rule: applyKept.induct) simp_all

lemma applyKept_nth:
  "i < length fs \<Longrightarrow>
   applyKept fs ks ! i =
     (fs ! i)\<lparr>Matches := Matches (fs ! i) @ map snd (filter (\<lambda>(j, mm). j = i) ks)\<rparr>"
proof (induction fs ks rule: applyKept.induct)
  case (1 fs)
  then show ?case by simp
next
  case (2 fs j mm ks)
  then show ?case by (cases "j = i") (simp_all add: nth_list_update)
qed

lemma applyKept_name: "i < length fs \<Longrightarrow> glob_Name (applyKept fs ks ! i) = glob_Name (fs ! i)"
  by (simp add: applyKept_nth)

lemma applyKept_extend:
  "\<forall>(i, mm) \<in> set ks. i < length fs \<Longrightarrow> applyKept (fs @ xs) ks = applyKept fs ks @ xs"
proof (induction fs ks rule: applyKept.induct)
  case (1 fs)
  then show ?case by simp
next
  case (2 fs i mm ks)
  then have i: "i < length fs" by simp
  have "(fs @ xs)[i := ((fs @ xs) ! i)\<lparr>Matches := Matches ((fs @ xs) ! i) @ [mm]\<rparr>] =
        fs[i := (fs ! i)\<lparr>Matches := Matches (fs ! i) @ [mm]\<rparr>] @ xs"
    using i by (simp add: list_update_append nth_append)
  moreover have "\<forall>(j, mm') \<in> set ks. j < length (fs[i := (fs ! i)\<lparr>Matches := Matches (fs ! i) @ [mm]\<rparr>])"
    using 2(2) by auto
  ultimately show ?case using 2(1) by simp
qed

lemma appendMatches_eq:
  "i < length fs \<Longrightarrow>
   appendMatches i seen fs mms =
     (seen \<union> (\<lambda>mm. matchKey (glob_Name (fs ! i)) (Path mm)) ` set mms,
      applyKept fs (map (Pair i) (unseen seen (\<lambda>mm. matchKey (glob_Name (fs ! i)) (Path mm)) mms)))"
proof (induction mms arbitrary: seen fs)
  case Nil
  then show ?case by simp
next
  case (Cons mm mms)
  let ?k = "\<lambda>mm. matchKey (glob_Name (fs ! i)) (Path mm)"
  show ?case
  proof (cases "?k mm \<in> seen")
    case True
    then have "seen \<union> ?k ` set (mm # mms) = seen \<union> ?k ` set mms" by auto
    with True Cons.IH[OF Cons.prems, of seen] show ?thesis
      by (simp add: unseen_Cons Let_def)
  next
    case False
    let ?fs = "fs[i := (fs ! i)\<lparr>Matches := Matches (fs ! i) @ [mm]\<rparr>]"
    have len: "i < length ?fs" using Cons.prems by simp
    have nm: "glob_Name (?fs ! i) = glob_Name (fs ! i)" using Cons.prems by simp
    have u: "insert (?k mm) seen \<union> ?k ` set mms = seen \<union> ?k ` set (mm # mms)" by auto
    from Cons.IH[OF len, of "insert (?k mm) seen"] False nm u show ?thesis
      by (simp add: unseen_Cons Let_def)
  qed
qed

subsection \<open>The loop over the entries of the second response\<close>

lemma candidates_Nil [simp]: "candidates pos [] = []"
  by (simp add: candidates_def)

lemma candidates_Cons:
  "candidates pos (m # ms) =
     (case pos (glob_Name m) of None \<Rightarrow> [] | Some i \<Rightarrow> map (Pair i) (Matches m)) @ candidates pos ms"
  by (simp add: candidates_def)

lemma candidates_index:
  "\<forall>n i. pos n = Some i \<longrightarrow> i < N \<Longrightarrow> (i, mm) \<in> set (candidates pos ss) \<Longrightarrow> i < N"
  by (induction ss) (auto simp: candidates_Cons split: option.splits)

lemma globLoop_eq:
  assumes "\<forall>n i. pos n = Some i \<longrightarrow> i < N"
    and "N \<le> length fs"
    and "\<forall>i<N. glob_Name (fs ! i) = nm i"
  shows "globLoop pos seen fs ss =
           Inr (applyKept fs (unseen seen (\<lambda>(i, mm). matchKey (nm i) (Path mm)) (candidates pos ss))
                @ filter (\<lambda>m. pos (glob_Name m) = None) ss)"
  using assms(2,3)
proof (induction ss arbitrary: seen fs)
  case Nil
  then show ?case by simp
next
  case (Cons m ms)
  let ?key = "\<lambda>(i, mm). matchKey (nm i) (Path mm)"
  show ?case
  proof (cases "pos (glob_Name m)")
    case None
    have len: "N \<le> length (fs @ [m])" using Cons.prems(1) by simp
    have nms: "\<forall>i<N. glob_Name ((fs @ [m]) ! i) = nm i"
      using Cons.prems by (simp add: nth_append)
    have idx: "\<forall>(i, mm) \<in> set (unseen seen ?key (candidates pos ms)). i < length fs"
    proof (clarify)
      fix i mm assume "(i, mm) \<in> set (unseen seen ?key (candidates pos ms))"
      then have "(i, mm) \<in> set (candidates pos ms)" using set_unseen by fastforce
      then have "i < N" using candidates_index[OF assms(1)] by blast
      then show "i < length fs" using Cons.prems(1) by simp
    qed
    show ?thesis
      using None Cons.IH[OF len nms, of seen] applyKept_extend[OF idx, of "[m]"]
      by (simp add: candidates_Cons)
  next
    case (Some i)
    then have iN: "i < N" using assms(1) by blast
    then have il: "i < length fs" using Cons.prems(1) by simp
    have nmi: "glob_Name (fs ! i) = nm i" using Cons.prems(2) iN by blast
    let ?k = "\<lambda>mm. matchKey (nm i) (Path mm)"
    let ?fs = "applyKept fs (map (Pair i) (unseen seen ?k (Matches m)))"
    let ?seen = "seen \<union> ?k ` set (Matches m)"
    have am: "appendMatches i seen fs (Matches m) = (?seen, ?fs)"
      using appendMatches_eq[OF il, of seen "Matches m"] nmi by simp
    have len: "N \<le> length ?fs" using Cons.prems(1) by simp
    have nms: "\<forall>j<N. glob_Name (?fs ! j) = nm j"
      using Cons.prems by (simp add: applyKept_name)
    have k: "(\<lambda>mm. ?key (i, mm)) = ?k" by simp
    have img: "?key ` set (map (Pair i) (Matches m)) = ?k ` set (Matches m)" by force
    have un: "unseen seen ?key (candidates pos (m # ms)) =
                map (Pair i) (unseen seen ?k (Matches m)) @ unseen ?seen ?key (candidates pos ms)"
      using Some by (simp add: candidates_Cons unseen_append unseen_map_Pair k img del: set_map)
    show ?thesis
      using Some il am Cons.IH[OF len nms, of ?seen]
      by (simp add: un applyKept_append)
  qed
qed

subsection \<open>The two indices\<close>

lemma indexGlob_keys: "snd (indexGlob s fs (sm0, K)) = K \<union> matchKeys fs"
  by (induction fs arbitrary: s sm0 K) (auto simp: matchKeys_def)

lemma lastAt_Cons_Suc: "lastAt (m # ms) n (Suc j) \<longleftrightarrow> lastAt ms n j"
proof
  assume a: "lastAt (m # ms) n (Suc j)"
  have "\<forall>l. j < l \<and> l < length ms \<longrightarrow> glob_Name (ms ! l) \<noteq> n"
  proof (intro allI impI)
    fix l assume "j < l \<and> l < length ms"
    then have "Suc j < Suc l \<and> Suc l < length (m # ms)" by simp
    with a have "glob_Name ((m # ms) ! Suc l) \<noteq> n" unfolding lastAt_def by blast
    then show "glob_Name (ms ! l) \<noteq> n" by simp
  qed
  with a show "lastAt ms n j" by (simp add: lastAt_def)
next
  assume a: "lastAt ms n j"
  have "\<forall>l. Suc j < l \<and> l < length (m # ms) \<longrightarrow> glob_Name ((m # ms) ! l) \<noteq> n"
  proof (intro allI impI)
    fix l assume l: "Suc j < l \<and> l < length (m # ms)"
    then obtain l' where l': "l = Suc l'" by (cases l) auto
    with l a show "glob_Name ((m # ms) ! l) \<noteq> n" by (simp add: lastAt_def)
  qed
  with a show "lastAt (m # ms) n (Suc j)" by (simp add: lastAt_def)
qed

lemma lastAt_Cons_0: "lastAt (m # ms) n 0 \<longleftrightarrow> glob_Name m = n \<and> n \<notin> glob_Name ` set ms"
proof
  assume a: "lastAt (m # ms) n 0"
  have "n \<notin> glob_Name ` set ms"
  proof
    assume "n \<in> glob_Name ` set ms"
    then obtain l where "l < length ms" "glob_Name (ms ! l) = n"
      by (auto simp: in_set_conv_nth)
    then have "0 < Suc l \<and> Suc l < length (m # ms)" "glob_Name ((m # ms) ! Suc l) = n" by simp_all
    with a show False unfolding lastAt_def by blast
  qed
  with a show "glob_Name m = n \<and> n \<notin> glob_Name ` set ms" by (simp add: lastAt_def)
next
  assume a: "glob_Name m = n \<and> n \<notin> glob_Name ` set ms"
  have "\<forall>l. 0 < l \<and> l < length (m # ms) \<longrightarrow> glob_Name ((m # ms) ! l) \<noteq> n"
  proof (intro allI impI)
    fix l assume l: "0 < l \<and> l < length (m # ms)"
    then obtain l' where l': "l = Suc l'" by (cases l) auto
    with l have "ms ! l' \<in> set ms" by simp
    then have "glob_Name (ms ! l') \<in> glob_Name ` set ms" by (rule imageI)
    with a l' show "glob_Name ((m # ms) ! l) \<noteq> n" by auto
  qed
  with a show "lastAt (m # ms) n 0" by (simp add: lastAt_def)
qed

lemma lastAt_in_names: "lastAt fs n j \<Longrightarrow> n \<in> glob_Name ` set fs"
  by (auto simp: lastAt_def)

lemma indexGlob_pos:
  "fst (indexGlob s fs (sm0, K)) n = Some i \<longleftrightarrow>
     (\<exists>j. i = s + j \<and> lastAt fs n j) \<or> (n \<notin> glob_Name ` set fs \<and> sm0 n = Some i)"
proof (induction fs arbitrary: s sm0 K)
  case Nil
  then show ?case by (simp add: lastAt_def)
next
  case (Cons m ms)
  let ?K = "K \<union> (\<lambda>mm. matchKey (glob_Name m) (Path mm)) ` set (Matches m)"
  have unf: "indexGlob s (m # ms) (sm0, K) = indexGlob (Suc s) ms (sm0(glob_Name m \<mapsto> s), ?K)"
    by simp
  have step: "fst (indexGlob s (m # ms) (sm0, K)) n = Some i \<longleftrightarrow>
      (\<exists>j. i = Suc s + j \<and> lastAt ms n j) \<or>
      (n \<notin> glob_Name ` set ms \<and> (sm0(glob_Name m \<mapsto> s)) n = Some i)"
    unfolding unf by (rule Cons)
  have ex: "(\<exists>j. i = s + j \<and> lastAt (m # ms) n j) \<longleftrightarrow>
      (i = s \<and> lastAt (m # ms) n 0) \<or> (\<exists>j. i = Suc s + j \<and> lastAt ms n j)"
  proof
    assume "\<exists>j. i = s + j \<and> lastAt (m # ms) n j"
    then obtain j where j: "i = s + j" "lastAt (m # ms) n j" by blast
    show "(i = s \<and> lastAt (m # ms) n 0) \<or> (\<exists>j. i = Suc s + j \<and> lastAt ms n j)"
    proof (cases j)
      case 0
      with j show ?thesis by simp
    next
      case (Suc j')
      with j have "i = Suc s + j'" "lastAt ms n j'" by (simp_all add: lastAt_Cons_Suc)
      then show ?thesis by blast
    qed
  next
    assume "(i = s \<and> lastAt (m # ms) n 0) \<or> (\<exists>j. i = Suc s + j \<and> lastAt ms n j)"
    then show "\<exists>j. i = s + j \<and> lastAt (m # ms) n j"
    proof
      assume "i = s \<and> lastAt (m # ms) n 0"
      then have "i = s + 0 \<and> lastAt (m # ms) n 0" by simp
      then show ?thesis by blast
    next
      assume "\<exists>j. i = Suc s + j \<and> lastAt ms n j"
      then obtain j where "i = s + Suc j" "lastAt (m # ms) n (Suc j)"
        by (auto simp: lastAt_Cons_Suc)
      then show ?thesis by blast
    qed
  qed
  show ?case
    unfolding step ex lastAt_Cons_0
    using lastAt_in_names[of ms n] by (cases "glob_Name m = n") auto
qed

subsection \<open>The merge\<close>

lemma lastAt_exists: "n \<in> glob_Name ` set fs \<Longrightarrow> \<exists>j. lastAt fs n j"
proof (induction fs)
  case Nil
  then show ?case by simp
next
  case (Cons m ms)
  show ?case
  proof (cases "n \<in> glob_Name ` set ms")
    case True
    with Cons.IH obtain j where "lastAt ms n j" by blast
    then have "lastAt (m # ms) n (Suc j)" by (simp add: lastAt_Cons_Suc)
    then show ?thesis by blast
  next
    case False
    with Cons.prems have "glob_Name m = n" by auto
    with False have "lastAt (m # ms) n 0" by (simp add: lastAt_Cons_0)
    then show ?thesis by blast
  qed
qed

lemma applyKept_map:
  "applyKept fs ks =
     map (\<lambda>i. (fs ! i)\<lparr>Matches := Matches (fs ! i) @ map snd (filter (\<lambda>(j, mm). j = i) ks)\<rparr>)
       [0..<length fs]"
  by (rule nth_equalityI) (simp_all add: applyKept_nth)

lemma find_union_applyKept:
  "find_union pos fs ss =
     applyKept fs (unseen (matchKeys fs) (\<lambda>(i, mm). matchKey (glob_Name (fs ! i)) (Path mm))
                     (candidates pos ss))
     @ filter (\<lambda>m. pos (glob_Name m) = None) ss"
  unfolding find_union_def Let_def applyKept_map ..

lemma find_Merge_result:
  assumes "find_Merge smerge first second = Inr (first', ret)"
    and "find_Response second = Some ss"
  shows "\<exists>fs pos. find_Response first = Some fs \<and> (\<forall>n i. pos n = Some i \<longleftrightarrow> lastAt fs n i) \<and>
           find_Response first' = Some (find_union pos fs ss)"
proof -
  from assms obtain fs where fs: "find_Response first = Some fs"
    by (auto simp: find_Merge_def Let_def split: sum.splits option.splits)
  obtain pos K where ix: "indexGlob 0 fs (Map.empty, {}) = (pos, K)" by (cases "indexGlob 0 fs (Map.empty, {})")
  have K: "K = matchKeys fs" using indexGlob_keys[of 0 fs Map.empty "{}"] ix by simp
  have pos: "\<forall>n i. pos n = Some i \<longleftrightarrow> lastAt fs n i"
    using indexGlob_pos[of 0 fs Map.empty "{}"] ix by simp
  have bound: "\<forall>n i. pos n = Some i \<longrightarrow> i < length fs"
    using pos by (simp add: lastAt_def)
  have loop: "globLoop pos K fs ss = Inr (find_union pos fs ss)"
    unfolding find_union_applyKept K
    by (rule globLoop_eq[OF bound]) simp_all
  have "find_Response first' = Some (find_union pos fs ss)"
    using assms fs ix loop
    by (auto simp: find_Merge_def Let_def split: sum.splits)
  with fs pos show ?thesis by blast
qed

lemma find_union_shape:
  assumes "\<forall>n i. pos n = Some i \<longleftrightarrow> lastAt fs n i"
  shows "drop (length fs) (find_union pos fs ss) = filter (\<lambda>m. glob_Name m \<notin> glob_Name ` set fs) ss"
    and "\<forall>i<length fs. glob_Name (find_union pos fs ss ! i) = glob_Name (fs ! i) \<and>
            take (length (Matches (fs ! i))) (Matches (find_union pos fs ss ! i)) = Matches (fs ! i)"
proof -
  have none: "pos n = None \<longleftrightarrow> n \<notin> glob_Name ` set fs" for n
  proof
    assume "pos n = None"
    show "n \<notin> glob_Name ` set fs"
    proof
      assume "n \<in> glob_Name ` set fs"
      then obtain j where "lastAt fs n j" using lastAt_exists by blast
      with assms have "pos n = Some j" by blast
      with \<open>pos n = None\<close> show False by simp
    qed
  next
    assume a: "n \<notin> glob_Name ` set fs"
    show "pos n = None"
    proof (cases "pos n")
      case (Some i)
      with assms have "lastAt fs n i" by blast
      with a lastAt_in_names show ?thesis by blast
    qed simp
  qed
  show "drop (length fs) (find_union pos fs ss) = filter (\<lambda>m. glob_Name m \<notin> glob_Name ` set fs) ss"
    by (simp add: find_union_applyKept none)
  show "\<forall>i<length fs. glob_Name (find_union pos fs ss ! i) = glob_Name (fs ! i) \<and>
            take (length (Matches (fs ! i))) (Matches (find_union pos fs ss ! i)) = Matches (fs ! i)"
    by (simp add: find_union_applyKept nth_append applyKept_nth)
qed

lemma find_Merge_returns:
  assumes "find_Response first = Some fs"
    and "find_Stats first \<noteq> None \<or> find_Stats second = None"
  shows "\<exists>first' ret. find_Merge smerge first second = Inr (first', ret)"
proof -
  obtain pos K where ix: "indexGlob 0 fs (Map.empty, {}) = (pos, K)" by (cases "indexGlob 0 fs (Map.empty, {})")
  have pos: "\<forall>n i. pos n = Some i \<longleftrightarrow> lastAt fs n i"
    using indexGlob_pos[of 0 fs Map.empty "{}"] ix by simp
  have bound: "\<forall>n i. pos n = Some i \<longrightarrow> i < length fs"
    using pos by (simp add: lastAt_def)
  have loop: "\<exists>r. globLoop pos K fs ss = Inr r" for ss
    using globLoop_eq[OF bound, of fs "\<lambda>i. glob_Name (fs ! i)" K ss] by simp
  show ?thesis
  proof (cases "find_Response second")
    case None
    with assms show ?thesis
      by (auto simp: find_Merge_def mergeStats_def Let_def split: option.splits)
  next
    case (Some ss)
    from loop[of ss] obtain r where "globLoop pos K fs ss = Inr r" by blast
    with assms Some ix show ?thesis
      by (auto simp: find_Merge_def mergeStats_def Let_def split: option.splits)
  qed
qed

text \<open>
  The key of a match is the string \<open>name + "." + path\<close>. The match \<open>b.c\<close> offered to the
  entry \<open>a\<close> has the key of the match \<open>c\<close> of the entry \<open>a.b\<close>, and is dropped although the
  entry \<open>a\<close> has no such match: the merge leaves \<open>first\<close> as it was.
\<close>

theorem find_Merge_key_collision:
  "find_Merge (+) ex_find_first ex_find_second = Inr (ex_find_first, None)
   \<and> find_Response ex_find_first =
       Some [\<lparr>glob_Name = ''a.b'', Matches = [\<lparr>Path = ''c'', IsLeaf = True\<rparr>]\<rparr>,
             \<lparr>glob_Name = ''a'', Matches = []\<rparr>]
   \<and> find_Response ex_find_second =
       Some [\<lparr>glob_Name = ''a'', Matches = [\<lparr>Path = ''b.c'', IsLeaf = True\<rparr>]\<rparr>]"
  by (simp add: find_Merge_def mergeStats_def mergeErr_def Errors_Merge_def new_Errors_def
      matchKey_def ex_find_first_def ex_find_second_def)

text \<open>
  C6 (amended). \<open>ServerFindResponse.Merge\<close> returns whenever \<open>first\<close> has a body (and
  statistics if \<open>second\<close> has). With a non-nil \<open>second.Response\<close> the entries of \<open>first\<close>
  afterwards are \<open>find_union\<close>: each entry of \<open>second\<close> whose name is not in \<open>first\<close> is appended
  whole, in \<open>second\<close>'s order; for an entry whose name exists in \<open>first\<close>, its matches go to the
  last entry of that name, in \<open>second\<close>'s order, and a match is dropped exactly when its key
  string is among the keys of \<open>first\<close>'s matches or of a match offered earlier in this merge;
  the entries of \<open>first\<close> keep their position, their name and their matches as a prefix.
\<close>

theorem find_Merge_union:
  "(\<forall>fs. find_Response first = Some fs \<and> (find_Stats first \<noteq> None \<or> find_Stats second = None) \<longrightarrow>
       (\<exists>first' ret. find_Merge smerge first second = Inr (first', ret)))
   \<and> (\<forall>first' ret ss.
         find_Merge smerge first second = Inr (first', ret) \<and> find_Response second = Some ss \<longrightarrow>
         (\<exists>fs pos. find_Response first = Some fs \<and>
            (\<forall>n i. pos n = Some i \<longleftrightarrow> lastAt fs n i) \<and>
            find_Response first' = Some (find_union pos fs ss) \<and>
            drop (length fs) (find_union pos fs ss) =
              filter (\<lambda>m. glob_Name m \<notin> glob_Name ` set fs) ss \<and>
            (\<forall>i<length fs.
               glob_Name (find_union pos fs ss ! i) = glob_Name (fs ! i) \<and>
               take (length (Matches (fs ! i))) (Matches (find_union pos fs ss ! i)) =
                 Matches (fs ! i))))"
proof (intro conjI allI impI)
  fix fs
  assume "find_Response first = Some fs \<and> (find_Stats first \<noteq> None \<or> find_Stats second = None)"
  then show "\<exists>first' ret. find_Merge smerge first second = Inr (first', ret)"
    using find_Merge_returns by blast
next
  fix first' ret ss
  assume a: "find_Merge smerge first second = Inr (first', ret) \<and> find_Response second = Some ss"
  then obtain fs pos where r: "find_Response first = Some fs"
      "\<forall>n i. pos n = Some i \<longleftrightarrow> lastAt fs n i"
      "find_Response first' = Some (find_union pos fs ss)"
    using find_Merge_result by blast
  from find_union_shape[OF r(2), of ss] r
  show "\<exists>fs pos. find_Response first = Some fs \<and>
            (\<forall>n i. pos n = Some i \<longleftrightarrow> lastAt fs n i) \<and>
            find_Response first' = Some (find_union pos fs ss) \<and>
            drop (length fs) (find_union pos fs ss) =
              filter (\<lambda>m. glob_Name m \<notin> glob_Name ` set fs) ss \<and>
            (\<forall>i<length fs.
               glob_Name (find_union pos fs ss ! i) = glob_Name (fs ! i) \<and>
               take (length (Matches (fs ! i))) (Matches (find_union pos fs ss ! i)) =
                 Matches (fs ! i))"
    by blast
qed

theorem find_Merge_union_witness:
  "\<exists>first'. find_Merge (+) ex_glob_first ex_glob_second = Inr (first', None) \<and>
      find_Response first' =
        Some [\<lparr>glob_Name = ''a.*'', Matches = [\<lparr>Path = ''a.b'', IsLeaf = True\<rparr>,
                                                \<lparr>Path = ''a.c'', IsLeaf = True\<rparr>]\<rparr>,
              \<lparr>glob_Name = ''x.*'', Matches = [\<lparr>Path = ''x.y'', IsLeaf = False\<rparr>]\<rparr>] \<and>
      (\<exists>pos. find_Response first' =
         Some (find_union pos (the (find_Response ex_glob_first)) (the (find_Response ex_glob_second))))"
proof -
  let ?r = "[\<lparr>glob_Name = ''a.*'', Matches = [\<lparr>Path = ''a.b'', IsLeaf = True\<rparr>,
                                                \<lparr>Path = ''a.c'', IsLeaf = True\<rparr>]\<rparr>,
              \<lparr>glob_Name = ''x.*'', Matches = [\<lparr>Path = ''x.y'', IsLeaf = False\<rparr>]\<rparr>]"
  have e: "find_Merge (+) ex_glob_first ex_glob_second =
             Inr (ex_glob_first\<lparr>find_Response := Some ?r\<rparr>, None)"
    by (simp add: find_Merge_def mergeStats_def mergeErr_def Errors_Merge_def new_Errors_def
        matchKey_def ex_glob_first_def ex_glob_second_def)
  have s: "find_Response ex_glob_second = Some (the (find_Response ex_glob_second))"
    by (simp add: ex_glob_second_def)
  from find_Merge_union[of ex_glob_first ex_glob_second "(+)"] e s
  obtain fs pos where
    "find_Response ex_glob_first = Some fs"
    "find_Response (ex_glob_first\<lparr>find_Response := Some ?r\<rparr>) =
       Some (find_union pos fs (the (find_Response ex_glob_second)))"
    by blast
  then have "\<exists>pos. find_Response (ex_glob_first\<lparr>find_Response := Some ?r\<rparr>) =
         Some (find_union pos (the (find_Response ex_glob_first)) (the (find_Response ex_glob_second)))"
    by auto
  with e show ?thesis by auto
qed

end
